theory Spec2Isabelle
  imports Complex_Main
begin

section \<open>hn-notify: keyword store, relevance filter, batch notification, poll cycle\<close>

text \<open>
  A shallow embedding of \<^verbatim>\<open>src/index.ts\<close>. The worker keeps two values in a key-value
  namespace (the keyword list and the time of the last check), searches Hacker News for
  each keyword, optionally scores each hit against the keyword's context, and posts one
  notification per cycle.

  Conventions of the model:
  \<^item> a JavaScript string is a \<open>string\<close>; one \<open>char\<close> stands for one UTF-16 code unit
    (the model covers code units below 256), so \<open>length\<close> and \<open>take\<close> count what
    \<^verbatim>\<open>.length\<close> and \<^verbatim>\<open>.substring\<close> count;
  \<^item> an optional field (\<^verbatim>\<open>title?: string\<close>) is an \<open>option\<close>; \<open>None\<close> stands for
    \<^verbatim>\<open>undefined\<close> and \<^verbatim>\<open>null\<close>, which the code never tells apart;
  \<^item> a thrown exception is the \<open>Inl\<close> of a sum;
  \<^item> the network, the scorer and the clock are parameters: a record of functions that
    say what each call returns.
\<close>

subsection \<open>Strings\<close>

text \<open>\<^verbatim>\<open>String.prototype.trim\<close>: the white space and line terminators below 256.\<close>

definition isWhiteSpace :: "char \<Rightarrow> bool" where
  "isWhiteSpace c = (of_char c \<in> {9, 10, 11, 12, 13, 32, 160 :: nat})"

definition trimStart :: "string \<Rightarrow> string" where
  "trimStart s = dropWhile isWhiteSpace s"

definition trim :: "string \<Rightarrow> string" where
  "trim s = rev (dropWhile isWhiteSpace (rev (dropWhile isWhiteSpace s)))"

text \<open>
  \<^verbatim>\<open>String.prototype.toLowerCase\<close> on code units below 256: A..Z and the Latin-1
  capitals (U+00C0..U+00DE without the multiplication sign U+00D7) move up by 32.
\<close>

definition lowerChar :: "char \<Rightarrow> char" where
  "lowerChar c =
     (let n = (of_char c :: nat)
      in if (65 \<le> n \<and> n \<le> 90) \<or> (192 \<le> n \<and> n \<le> 222 \<and> n \<noteq> 215)
         then char_of (n + 32) else c)"

definition toLowerCase :: "string \<Rightarrow> string" where
  "toLowerCase s = map lowerChar s"

text \<open>\<^verbatim>\<open>s.substring(0, n)\<close>.\<close>

definition substring0 :: "nat \<Rightarrow> string \<Rightarrow> string" where
  "substring0 n s = take n s"

text \<open>\<^verbatim>\<open>Array.prototype.join\<close>.\<close>

fun join :: "string \<Rightarrow> string list \<Rightarrow> string" where
  "join sep [] = []"
| "join sep [x] = x"
| "join sep (x # y # ys) = x @ sep @ join sep (y # ys)"

text \<open>
  \<^verbatim>\<open>s.replace(/<[^>]*>/g, " ")\<close>: at a \<^verbatim>\<open><\<close> the pattern matches up to the next
  \<^verbatim>\<open>>\<close> and the match becomes one space; with no \<^verbatim>\<open>>\<close> left there is no match and the
  \<^verbatim>\<open><\<close> stays.
\<close>

function stripTags :: "string \<Rightarrow> string" where
  "stripTags [] = []"
| "stripTags (c # cs) =
     (if c = CHR ''<'' then
        (case dropWhile (\<lambda>d. d \<noteq> CHR ''>'') cs of
           [] \<Rightarrow> c # stripTags cs
         | _ # rest \<Rightarrow> CHR '' '' # stripTags rest)
      else c # stripTags cs)"
  by pat_completeness auto
termination
proof (relation "measure length")
  show "wf (measure length)" by simp
next
  fix c :: char and cs :: string
  show "(cs, c # cs) \<in> measure length" by simp
next
  fix c :: char and cs :: string and g :: char and rest :: string
  assume "dropWhile (\<lambda>d. d \<noteq> CHR ''>'') cs = g # rest"
  moreover have "length (dropWhile (\<lambda>d. d \<noteq> CHR ''>'') cs) \<le> length cs"
    by (rule length_dropWhile_le)
  ultimately have "length rest < length cs" by simp
  then show "(rest, c # cs) \<in> measure length" by simp
next
  fix c :: char and cs :: string
  show "(cs, c # cs) \<in> measure length" by simp
qed

text \<open>
  \<^verbatim>\<open>Number.prototype.toString\<close> on an integer: the decimal digits, with a minus sign
  (the numbers here, times in seconds and counts, are far below \<open>10^21\<close>, where
  JavaScript changes to the exponent form).
\<close>

definition digitChar :: "nat \<Rightarrow> char" where
  "digitChar d = ''0123456789'' ! d"

fun natToString :: "nat \<Rightarrow> string" where
  "natToString n = (if n < 10 then [digitChar n] else natToString (n div 10) @ [digitChar (n mod 10)])"

declare natToString.simps [simp del]

definition toString :: "int \<Rightarrow> string" where
  "toString i = (if i < 0 then CHR ''-'' # natToString (nat (- i)) else natToString (nat i))"

text \<open>
  \<^verbatim>\<open>parseInt(s, 10)\<close>: leading white space is skipped, one sign is read, then the longest
  run of decimal digits; with no digit the result is \<^verbatim>\<open>NaN\<close>.
\<close>

datatype number = Num int | NaN

definition isDigit :: "char \<Rightarrow> bool" where
  "isDigit c = (48 \<le> (of_char c :: nat) \<and> (of_char c :: nat) \<le> 57)"

definition digitsValue :: "string \<Rightarrow> nat" where
  "digitsValue ds = foldl (\<lambda>acc c. 10 * acc + (of_char c - 48)) 0 ds"

definition parseDigits :: "string \<Rightarrow> nat option" where
  "parseDigits s =
     (let ds = takeWhile isDigit s in if ds = [] then None else Some (digitsValue ds))"

definition parseInt :: "string \<Rightarrow> number" where
  "parseInt s =
     (case trimStart s of
        [] \<Rightarrow> NaN
      | c # cs \<Rightarrow>
          if c = CHR ''-'' then (case parseDigits cs of None \<Rightarrow> NaN | Some n \<Rightarrow> Num (- int n))
          else if c = CHR ''+'' then (case parseDigits cs of None \<Rightarrow> NaN | Some n \<Rightarrow> Num (int n))
          else (case parseDigits (c # cs) of None \<Rightarrow> NaN | Some n \<Rightarrow> Num (int n)))"

text \<open>\<^verbatim>\<open>a || b\<close> for an optional string \<open>a\<close>: the empty string is falsy, like \<^verbatim>\<open>undefined\<close>.\<close>

definition truthy :: "string option \<Rightarrow> bool" where
  "truthy a = (case a of None \<Rightarrow> False | Some s \<Rightarrow> s \<noteq> [])"

definition orElse :: "string option \<Rightarrow> string \<Rightarrow> string" where
  "orElse a b = (case a of None \<Rightarrow> b | Some s \<Rightarrow> if s = [] then b else s)"

subsection \<open>Types\<close>

text \<open>
  \<^verbatim>\<open>interface KeywordConfig { keyword: string; context?: string }\<close>. The field
  \<^verbatim>\<open>context\<close> is \<open>kcontext\<close> here and \<^verbatim>\<open>MatchedHit.keyword\<close> is \<open>mkeyword\<close>.
\<close>

record KeywordConfig =
  keyword :: string
  kcontext :: "string option"

record HNHit =
  objectID :: string
  title :: "string option"
  story_title :: "string option"
  url :: "string option"
  story_url :: "string option"
  author :: string
  created_at_i :: int
  comment_text :: "string option"

record MatchedHit =
  mkeyword :: string
  hit :: HNHit

datatype error =
  EmptyKeyword          \<comment> \<open>\<^verbatim>\<open>Error("Keyword cannot be empty")\<close>\<close>
| HNApiError nat        \<comment> \<open>\<^verbatim>\<open>Error(`HN API error: ${response.status}`)\<close>\<close>
| SearchRejected        \<comment> \<open>the \<^verbatim>\<open>fetch\<close> of \<^verbatim>\<open>searchHN\<close> rejects\<close>
| NotifyRejected        \<comment> \<open>the \<^verbatim>\<open>fetch\<close> of \<^verbatim>\<open>sendNotification\<close> rejects\<close>
| BodyUnreadable        \<comment> \<open>\<^verbatim>\<open>response.json()\<close> rejects, or the body has no \<^verbatim>\<open>hits\<close>\<close>
| ScorerFailed          \<comment> \<open>\<^verbatim>\<open>ai.run\<close> rejects\<close>
| InvalidTimeValue      \<comment> \<open>\<^verbatim>\<open>RangeError\<close> of \<^verbatim>\<open>Date.prototype.toISOString\<close>\<close>

subsection \<open>The key-value namespace\<close>

text \<open>
  The worker reads and writes two keys, \<^verbatim>\<open>"keywords"\<close> and \<^verbatim>\<open>"last_check_timestamp"\<close>.
  The namespace is modelled by the values under these two keys. The value under
  \<^verbatim>\<open>"keywords"\<close> is JSON text; \<^verbatim>\<open>JSON.parse\<close> and \<^verbatim>\<open>JSON.stringify\<close> are the
  platform's, and the model keeps the parsed value, which has one of two shapes: the
  array of strings that earlier versions wrote, or an array of \<^verbatim>\<open>KeywordConfig\<close>.
\<close>

datatype stored_keywords = StringArray "string list" | ConfigArray "KeywordConfig list"

record KVNamespace =
  KEYWORDS_KEY :: "stored_keywords option"
  LAST_CHECK_KEY :: "string option"

text \<open>
  \<^verbatim>\<open>getKeywords\<close>. An empty array has no first element, so it is returned as it is.
\<close>

definition getKeywords :: "KVNamespace \<Rightarrow> KeywordConfig list" where
  "getKeywords kv =
     (case KEYWORDS_KEY kv of
        None \<Rightarrow> []
      | Some (StringArray parsed) \<Rightarrow>
          if length parsed > 0 then map (\<lambda>k. \<lparr>keyword = k, kcontext = None\<rparr>) parsed else []
      | Some (ConfigArray parsed) \<Rightarrow> parsed)"

text \<open>
  \<^verbatim>\<open>existing.context = trimmedContext\<close> assigns to the first element that \<^verbatim>\<open>find\<close>
  returns, inside the array: the element keeps its place.
\<close>

fun setContextOfFirst :: "string \<Rightarrow> string option \<Rightarrow> KeywordConfig list \<Rightarrow> KeywordConfig list" where
  "setContextOfFirst n c [] = []"
| "setContextOfFirst n c (k # ks) =
     (if keyword k = n then k\<lparr>kcontext := c\<rparr> # ks else k # setContextOfFirst n c ks)"

text \<open>\<^verbatim>\<open>context?.trim() || undefined\<close>.\<close>

definition trimmedContext :: "string option \<Rightarrow> string option" where
  "trimmedContext c =
     (case c of None \<Rightarrow> None | Some s \<Rightarrow> if trim s = [] then None else Some (trim s))"

definition addKeyword ::
  "KVNamespace \<Rightarrow> string \<Rightarrow> string option \<Rightarrow> (error + KeywordConfig list) \<times> KVNamespace" where
  "addKeyword kv k c =
     (let ks = getKeywords kv;
          normalized = toLowerCase (trim k)
      in if normalized = [] then (Inl EmptyKeyword, kv)
         else
           let ks' = (case find (\<lambda>e. keyword e = normalized) ks of
                        Some existing \<Rightarrow> setContextOfFirst normalized (trimmedContext c) ks
                      | None \<Rightarrow> ks @ [\<lparr>keyword = normalized, kcontext = trimmedContext c\<rparr>])
           in (Inr ks', kv\<lparr>KEYWORDS_KEY := Some (ConfigArray ks')\<rparr>))"

definition removeKeyword :: "KVNamespace \<Rightarrow> string \<Rightarrow> KeywordConfig list \<times> KVNamespace" where
  "removeKeyword kv k =
     (let ks = getKeywords kv;
          normalized = toLowerCase (trim k);
          filtered = filter (\<lambda>e. keyword e \<noteq> normalized) ks
      in (filtered, kv\<lparr>KEYWORDS_KEY := Some (ConfigArray filtered)\<rparr>))"

subsection \<open>The time of the last check\<close>

text \<open>
  \<^verbatim>\<open>getLastCheckTimestamp\<close>; \<open>dateNow\<close> is what \<^verbatim>\<open>Date.now()\<close> returns there, in
  milliseconds. \<^verbatim>\<open>!data\<close> holds for \<^verbatim>\<open>null\<close> and for the empty string.
\<close>

definition getLastCheckTimestamp :: "KVNamespace \<Rightarrow> int \<Rightarrow> number" where
  "getLastCheckTimestamp kv dateNow =
     (case LAST_CHECK_KEY kv of
        None \<Rightarrow> Num (dateNow div 1000 - 15 * 60)
      | Some data \<Rightarrow> if data = [] then Num (dateNow div 1000 - 15 * 60) else parseInt data)"

definition setLastCheckTimestamp :: "KVNamespace \<Rightarrow> int \<Rightarrow> KVNamespace" where
  "setLastCheckTimestamp kv timestamp = kv\<lparr>LAST_CHECK_KEY := Some (toString timestamp)\<rparr>"

text \<open>
  \<^verbatim>\<open>new Date(lastCheck * 1000).toISOString()\<close> throws a \<^verbatim>\<open>RangeError\<close> when the time
  value is \<^verbatim>\<open>NaN\<close> or beyond 8.64e15 milliseconds. Only whether it throws is modelled.
\<close>

definition validTimeValue :: "number \<Rightarrow> bool" where
  "validTimeValue t =
     (case t of NaN \<Rightarrow> False | Num secs \<Rightarrow> \<bar>secs * 1000\<bar> \<le> 8640000000000000)"

subsection \<open>The platform\<close>

text \<open>
  What the calls that leave the worker return. A \<^verbatim>\<open>fetch\<close> of the search URL is
  determined by the query and the time in the URL; it rejects, or resolves to a status
  and a body, whose \<^verbatim>\<open>hits\<close> are there or not. A \<^verbatim>\<open>fetch\<close> to ntfy.sh resolves
  (\<open>True\<close>, whatever the status, which the code does not read) or rejects. The clock is
  read once to compute the default time of the last check and once for the time of the
  cycle.
\<close>

datatype fetch_response = Rejects | Resolves nat "HNHit list option"

record NtfyRequest =
  requestUrl :: string
  headerTitle :: string
  headerClick :: "string option"
  headerActions :: "string option"
  requestBody :: string

record Platform =
  fetchSearch :: "string \<Rightarrow> number \<Rightarrow> fetch_response"
  fetchNtfy :: "NtfyRequest \<Rightarrow> bool"
  dateNowDefault :: int
  dateNow :: int

text \<open>
  \<^verbatim>\<open>interface Env\<close>. \<^verbatim>\<open>AI\<close> is the scorer binding: for a query and a text, \<^verbatim>\<open>ai.run\<close>
  rejects, or resolves to a result whose \<^verbatim>\<open>response?.[0]?.score\<close> is a number or is
  missing. A score is a finite number, here a \<open>real\<close>.
\<close>

datatype ai_response = AiRejects | AiResolves "real option"

record Env =
  HN_KV :: KVNamespace
  NTFY_TOPIC :: string
  AI :: "string \<Rightarrow> string \<Rightarrow> ai_response"

definition RELEVANCE_THRESHOLD :: real where
  "RELEVANCE_THRESHOLD = 1 / 2"

text \<open>\<^verbatim>\<open>searchHN\<close>; \<^verbatim>\<open>response.ok\<close> is a status from 200 to 299.\<close>

definition searchHN :: "Platform \<Rightarrow> string \<Rightarrow> number \<Rightarrow> error + HNHit list" where
  "searchHN p query sinceTimestamp =
     (case fetchSearch p query sinceTimestamp of
        Rejects \<Rightarrow> Inl SearchRejected
      | Resolves status data \<Rightarrow>
          if \<not> (200 \<le> status \<and> status \<le> 299) then Inl (HNApiError status)
          else (case data of None \<Rightarrow> Inl BodyUnreadable | Some hits \<Rightarrow> Inr hits))"

text \<open>\<^verbatim>\<open>sendNotification\<close>: the request that was posted, or the rejection.\<close>

definition sendNotification ::
  "Platform \<Rightarrow> string \<Rightarrow> string \<Rightarrow> string \<Rightarrow> string option \<Rightarrow> error + NtfyRequest" where
  "sendNotification p topic ttl message link =
     (let request =
            \<lparr>requestUrl = ''https://ntfy.sh/'' @ topic,
             headerTitle = ttl,
             headerClick = (if truthy link then link else None),
             headerActions = (if truthy link then Some (''view, Open, '' @ the link) else None),
             requestBody = message\<rparr>
      in if fetchNtfy p request then Inr request else Inl NotifyRejected)"

subsection \<open>Relevance\<close>

text \<open>\<^verbatim>\<open>.filter(Boolean)\<close> on optional strings drops \<^verbatim>\<open>undefined\<close> and the empty string.\<close>

fun filterBoolean :: "string option list \<Rightarrow> string list" where
  "filterBoolean [] = []"
| "filterBoolean (None # xs) = filterBoolean xs"
| "filterBoolean (Some s # xs) = (if s = [] then filterBoolean xs else s # filterBoolean xs)"

definition relevanceContent :: "HNHit \<Rightarrow> string" where
  "relevanceContent h =
     substring0 500
       (join '' '' (filterBoolean [title h, story_title h, map_option stripTags (comment_text h)]))"

definition checkRelevance :: "Env \<Rightarrow> string \<Rightarrow> HNHit \<Rightarrow> error + real" where
  "checkRelevance env ctx h =
     (let content = relevanceContent h
      in if trim content = [] then Inr 0
         else (case AI env ctx content of
                 AiRejects \<Rightarrow> Inl ScorerFailed
               | AiResolves None \<Rightarrow> Inr 0
               | AiResolves (Some score) \<Rightarrow> Inr score))"

subsection \<open>The batch notification\<close>

text \<open>
  \<^verbatim>\<open>Map.prototype.get\<close> and \<^verbatim>\<open>set\<close> on a \<^verbatim>\<open>Map<string, number>\<close>, which keeps its keys in
  the order of their first \<^verbatim>\<open>set\<close>.
\<close>

fun mapGet :: "(string \<times> nat) list \<Rightarrow> string \<Rightarrow> nat option" where
  "mapGet [] k = None"
| "mapGet ((k', v) # m) k = (if k' = k then Some v else mapGet m k)"

fun mapSet :: "(string \<times> nat) list \<Rightarrow> string \<Rightarrow> nat \<Rightarrow> (string \<times> nat) list" where
  "mapSet [] k v = [(k, v)]"
| "mapSet ((k', v') # m) k v = (if k' = k then (k, v) # m else (k', v') # mapSet m k v)"

text \<open>The loop \<^verbatim>\<open>for (const { keyword } of matches) keywordCounts.set(...)\<close>.\<close>

fun countKeywords :: "(string \<times> nat) list \<Rightarrow> MatchedHit list \<Rightarrow> (string \<times> nat) list" where
  "countKeywords keywordCounts [] = keywordCounts"
| "countKeywords keywordCounts (m # ms) =
     countKeywords
       (mapSet keywordCounts (mkeyword m)
          ((case mapGet keywordCounts (mkeyword m) of None \<Rightarrow> 0 | Some n \<Rightarrow> n) + 1))
       ms"

definition itemTitle :: "HNHit \<Rightarrow> string" where
  "itemTitle h = orElse (title h) (orElse (story_title h) ''Comment'')"

definition formatHitBody :: "HNHit \<Rightarrow> string" where
  "formatHitBody h =
     (case comment_text h of
        None \<Rightarrow> ''by '' @ author h
      | Some t \<Rightarrow> if t = [] then ''by '' @ author h else substring0 200 (stripTags t) @ ''...'')"

text \<open>
  The bullet of the list is U+2022, which has no \<open>char\<close>: it is written as its three
  UTF-8 bytes. Nothing measures or cuts a string that holds it.
\<close>

definition bullet :: string where
  "bullet = [char_of (226 :: nat), char_of (128 :: nat), char_of (162 :: nat)]"

definition newline :: string where
  "newline = [char_of (10 :: nat)]"

definition summaryPart :: "string \<times> nat \<Rightarrow> string" where
  "summaryPart e = fst e @ ''('' @ toString (int (snd e)) @ '')''"

definition bulletLine :: "MatchedHit \<Rightarrow> string" where
  "bulletLine m = bullet @ '' ['' @ mkeyword m @ ''] '' @ substring0 60 (itemTitle (hit m))"

text \<open>\<^verbatim>\<open>formatBatchNotification\<close> returns the title and the body.\<close>

definition formatBatchNotification :: "MatchedHit list \<Rightarrow> string \<times> string" where
  "formatBatchNotification ms =
     (if length ms = 0 then (''HN Alert'', ''No matches'')
      else if length ms = 1 then
        (''['' @ mkeyword (ms ! 0) @ ''] '' @ itemTitle (hit (ms ! 0)), formatHitBody (hit (ms ! 0)))
      else
        let keywordCounts = countKeywords [] ms;
            summaryParts = map summaryPart keywordCounts;
            ttl = ''HN Alert: '' @ toString (int (length ms)) @ '' matches'';
            lines = [join '', '' summaryParts, []] @ map bulletLine (take 10 ms)
                    @ (if length ms > 10
                       then [''... and '' @ toString (int (length ms) - 10) @ '' more'']
                       else [])
        in (ttl, join newline lines))"

subsection \<open>The poll cycle\<close>

text \<open>The variables of the loops of \<^verbatim>\<open>handleScheduled\<close>.\<close>

record Scan =
  seenIds :: "string set"
  matches :: "MatchedHit list"
  filteredCount :: nat

text \<open>
  The body of \<^verbatim>\<open>for (const hit of hits)\<close>. \<^verbatim>\<open>if (context)\<close> holds for a context that is
  there and not empty. The inner \<^verbatim>\<open>try\<close> catches what \<^verbatim>\<open>checkRelevance\<close> throws and
  goes on to the \<^verbatim>\<open>push\<close>.
\<close>

definition processHit :: "Env \<Rightarrow> string \<Rightarrow> string option \<Rightarrow> HNHit \<Rightarrow> Scan \<Rightarrow> Scan" where
  "processHit env kw ctx h s =
     (if objectID h \<in> seenIds s then s
      else
        let s1 = s\<lparr>seenIds := insert (objectID h) (seenIds s)\<rparr>;
            pushed = s1\<lparr>matches := matches s1 @ [\<lparr>mkeyword = kw, hit = h\<rparr>]\<rparr>
        in if truthy ctx then
             (case checkRelevance env (the ctx) h of
                Inr score \<Rightarrow>
                  if score < RELEVANCE_THRESHOLD
                  then s1\<lparr>filteredCount := filteredCount s1 + 1\<rparr>
                  else pushed
              | Inl aiError \<Rightarrow> pushed)
           else pushed)"

fun scanHits :: "Env \<Rightarrow> string \<Rightarrow> string option \<Rightarrow> HNHit list \<Rightarrow> Scan \<Rightarrow> Scan" where
  "scanHits env kw ctx [] s = s"
| "scanHits env kw ctx (h # hs) s = scanHits env kw ctx hs (processHit env kw ctx h s)"

text \<open>
  The loop \<^verbatim>\<open>for (const { keyword, context } of keywordConfigs)\<close>. When \<^verbatim>\<open>searchHN\<close>
  throws, the outer \<^verbatim>\<open>catch\<close> logs and the loop goes on with the variables as they were.
\<close>

fun scanKeywords :: "Env \<Rightarrow> Platform \<Rightarrow> number \<Rightarrow> KeywordConfig list \<Rightarrow> Scan \<Rightarrow> Scan" where
  "scanKeywords env p lastCheck [] s = s"
| "scanKeywords env p lastCheck (k # ks) s =
     scanKeywords env p lastCheck ks
       (case searchHN p (keyword k) lastCheck of
          Inr hits \<Rightarrow> scanHits env (keyword k) (kcontext k) hits s
        | Inl e \<Rightarrow> s)"

definition firstHitUrl :: "MatchedHit list \<Rightarrow> string" where
  "firstHitUrl ms = ''https://news.ycombinator.com/item?id='' @ objectID (hit (ms ! 0))"

text \<open>
  How a cycle ends: it was skipped, or it ran to its last line, whose log gives the
  number of ids seen, of matches and of filtered hits.
\<close>

datatype cycle_end = Skipped | Done nat nat nat

text \<open>
  \<^verbatim>\<open>handleScheduled\<close>: how the cycle ended or what it threw, the namespace afterwards, and
  the requests posted to ntfy.sh.
\<close>

definition handleScheduled ::
  "Env \<Rightarrow> Platform \<Rightarrow> (error + cycle_end) \<times> KVNamespace \<times> NtfyRequest list" where
  "handleScheduled env p =
     (let keywordConfigs = getKeywords (HN_KV env)
      in if length keywordConfigs = 0 then (Inr Skipped, HN_KV env, [])
         else if NTFY_TOPIC env = [] then (Inr Skipped, HN_KV env, [])
         else
           let lastCheck = getLastCheckTimestamp (HN_KV env) (dateNowDefault p);
               now = dateNow p div 1000
           in if \<not> validTimeValue lastCheck then (Inl InvalidTimeValue, HN_KV env, [])
              else
                let s = scanKeywords env p lastCheck keywordConfigs
                          \<lparr>seenIds = {}, matches = [], filteredCount = 0\<rparr>;
                    finished = Done (card (seenIds s)) (length (matches s)) (filteredCount s)
                in if length (matches s) > 0 then
                     (case sendNotification p (NTFY_TOPIC env)
                             (fst (formatBatchNotification (matches s)))
                             (snd (formatBatchNotification (matches s)))
                             (Some (firstHitUrl (matches s))) of
                        Inl e \<Rightarrow> (Inl e, HN_KV env, [])
                      | Inr request \<Rightarrow>
                          (Inr finished, setLastCheckTimestamp (HN_KV env) now, [request]))
                   else (Inr finished, setLastCheckTimestamp (HN_KV env) now, []))"

subsection \<open>The management API\<close>

text \<open>
  \<^verbatim>\<open>handleRequest\<close>, after the URL, the method and the body have been read: a request is
  one of the routes with its decoded arguments. The response is the JSON payload or the
  error of the \<^verbatim>\<open>catch\<close>; the status report carries the time of the last check in seconds
  (its rendering as an ISO date is not modelled, only that it can throw).
\<close>

datatype request =
  OPTIONS
| GET_keywords
| POST_keywords string "string option"
| DELETE_keywords string
| GET_status
| POST_trigger
| Unmatched

datatype response =
  NoBody
| KeywordsPayload "KeywordConfig list"
| StatusPayload nat number bool real
| TriggeredPayload
| NotFound
| ServerError error

definition handleRequest ::
  "request \<Rightarrow> Env \<Rightarrow> Platform \<Rightarrow> response \<times> KVNamespace \<times> NtfyRequest list" where
  "handleRequest r env p =
     (case r of
        OPTIONS \<Rightarrow> (NoBody, HN_KV env, [])
      | GET_keywords \<Rightarrow> (KeywordsPayload (getKeywords (HN_KV env)), HN_KV env, [])
      | POST_keywords k c \<Rightarrow>
          (case addKeyword (HN_KV env) k c of
             (Inl e, kv') \<Rightarrow> (ServerError e, kv', [])
           | (Inr ks, kv') \<Rightarrow> (KeywordsPayload ks, kv', []))
      | DELETE_keywords k \<Rightarrow>
          (case removeKeyword (HN_KV env) k of (ks, kv') \<Rightarrow> (KeywordsPayload ks, kv', []))
      | GET_status \<Rightarrow>
          (let ks = getKeywords (HN_KV env);
               lastCheck = getLastCheckTimestamp (HN_KV env) (dateNowDefault p)
           in if \<not> validTimeValue lastCheck then (ServerError InvalidTimeValue, HN_KV env, [])
              else (StatusPayload (length ks) lastCheck (NTFY_TOPIC env \<noteq> []) RELEVANCE_THRESHOLD,
                    HN_KV env, []))
      | POST_trigger \<Rightarrow>
          (case handleScheduled env p of
             (Inl e, kv', posted) \<Rightarrow> (ServerError e, kv', posted)
           | (Inr _, kv', posted) \<Rightarrow> (TriggeredPayload, kv', posted))
      | Unmatched \<Rightarrow> (NotFound, HN_KV env, []))"

subsection \<open>Notions used to state the properties\<close>

text \<open>A keyword as \<^verbatim>\<open>addKeyword\<close> stores it: not empty, trimmed and in lower case.\<close>

definition isNormalized :: "string \<Rightarrow> bool" where
  "isNormalized s = (s \<noteq> [] \<and> toLowerCase (trim s) = s)"

text \<open>
  The hits of a cycle in the order in which the two loops visit them, each with the
  keyword entry whose search returned it; a search that throws gives none.
\<close>

fun candidates :: "Platform \<Rightarrow> number \<Rightarrow> KeywordConfig list \<Rightarrow> (KeywordConfig \<times> HNHit) list" where
  "candidates p lastCheck [] = []"
| "candidates p lastCheck (k # ks) =
     (case searchHN p (keyword k) lastCheck of
        Inr hits \<Rightarrow> map (Pair k) hits
      | Inl e \<Rightarrow> [])
     @ candidates p lastCheck ks"

text \<open>The candidates whose id has not been seen before them: the ones that pass the dedupe.\<close>

fun firstSightings :: "string set \<Rightarrow> (KeywordConfig \<times> HNHit) list \<Rightarrow> (KeywordConfig \<times> HNHit) list" where
  "firstSightings seen [] = []"
| "firstSightings seen (c # cs) =
     (if objectID (snd c) \<in> seen then firstSightings seen cs
      else c # firstSightings (insert (objectID (snd c)) seen) cs)"

text \<open>The search for a keyword entry returned a hit with the id.\<close>

definition returnsId :: "Platform \<Rightarrow> number \<Rightarrow> string \<Rightarrow> KeywordConfig \<Rightarrow> bool" where
  "returnsId p lastCheck i k =
     (case searchHN p (keyword k) lastCheck of
        Inr hits \<Rightarrow> i \<in> objectID ` set hits
      | Inl e \<Rightarrow> False)"

definition searchSucceeds :: "Platform \<Rightarrow> number \<Rightarrow> KeywordConfig \<Rightarrow> bool" where
  "searchSucceeds p lastCheck k =
     (case searchHN p (keyword k) lastCheck of Inr hits \<Rightarrow> True | Inl e \<Rightarrow> False)"

text \<open>The state of the loops when \<^verbatim>\<open>handleScheduled\<close> enters them.\<close>

definition initialScan :: Scan where
  "initialScan = \<lparr>seenIds = {}, matches = [], filteredCount = 0\<rparr>"

text \<open>
  The summary line in the spec's words: each keyword of the batch once, in the order of
  its first match, with the number of its matches.
\<close>

fun keywordsInOrder :: "string list \<Rightarrow> string list" where
  "keywordsInOrder [] = []"
| "keywordsInOrder (k # ks) = k # filter (\<lambda>k'. k' \<noteq> k) (keywordsInOrder ks)"

definition keywordTally :: "MatchedHit list \<Rightarrow> (string \<times> nat) list" where
  "keywordTally ms =
     map (\<lambda>k. (k, length (filter (\<lambda>m. mkeyword m = k) ms))) (keywordsInOrder (map mkeyword ms))"

text \<open>The two loops as one loop over the candidates.\<close>

fun scanCandidates :: "Env \<Rightarrow> (KeywordConfig \<times> HNHit) list \<Rightarrow> Scan \<Rightarrow> Scan" where
  "scanCandidates env [] s = s"
| "scanCandidates env (c # cs) s =
     scanCandidates env cs (processHit env (keyword (fst c)) (kcontext (fst c)) (snd c) s)"

definition toMatch :: "KeywordConfig \<times> HNHit \<Rightarrow> MatchedHit" where
  "toMatch c = \<lparr>mkeyword = keyword (fst c), hit = snd c\<rparr>"

text \<open>
  The keyword entry of the candidate has a context, the scorer gave a score for the hit,
  and the score is below the threshold.
\<close>

definition scoredBelow :: "Env \<Rightarrow> KeywordConfig \<times> HNHit \<Rightarrow> bool" where
  "scoredBelow env c =
     (case kcontext (fst c) of
        None \<Rightarrow> False
      | Some ctx \<Rightarrow>
          ctx \<noteq> [] \<and>
          (case checkRelevance env ctx (snd c) of
             Inr score \<Rightarrow> score < RELEVANCE_THRESHOLD
           | Inl e \<Rightarrow> False))"

subsection \<open>A sample cycle\<close>

text \<open>
  Two keyword entries, a story and a comment. The search for \<^verbatim>\<open>rust\<close> returns both hits,
  the search for \<^verbatim>\<open>zig\<close> the comment alone.
\<close>

abbreviation sampleStory :: HNHit where
  "sampleStory \<equiv>
     \<lparr>objectID = ''101'', title = Some ''Rust 2.0 released'', story_title = None,
      url = Some ''https://example.com/rust'', story_url = None, author = ''alice'',
      created_at_i = 1700000100, comment_text = None\<rparr>"

abbreviation sampleComment :: HNHit where
  "sampleComment \<equiv>
     \<lparr>objectID = ''102'', title = None, story_title = Some ''Zig vs Rust'',
      url = None, story_url = None, author = ''bob'',
      created_at_i = 1700000200, comment_text = Some ''I like <i>Zig</i> more''\<rparr>"

abbreviation sampleKeywords :: "KeywordConfig list" where
  "sampleKeywords \<equiv>
     [\<lparr>keyword = ''rust'', kcontext = Some ''systems programming''\<rparr>,
      \<lparr>keyword = ''zig'', kcontext = None\<rparr>]"

abbreviation sampleKV :: KVNamespace where
  "sampleKV \<equiv> \<lparr>KEYWORDS_KEY = Some (ConfigArray sampleKeywords), LAST_CHECK_KEY = Some ''1700000000''\<rparr>"

abbreviation sampleFetch :: "string \<Rightarrow> number \<Rightarrow> fetch_response" where
  "sampleFetch \<equiv>
     (\<lambda>q t. if q = ''rust'' then Resolves 200 (Some [sampleStory, sampleComment])
            else Resolves 200 (Some [sampleComment]))"

abbreviation samplePlatform :: Platform where
  "samplePlatform \<equiv>
     \<lparr>fetchSearch = sampleFetch, fetchNtfy = (\<lambda>r. True),
      dateNowDefault = 1700000900100, dateNow = 1700000900123\<rparr>"

text \<open>The scorer gives 0.7 for the story and 0.3 for everything else.\<close>

abbreviation sampleAI :: "string \<Rightarrow> string \<Rightarrow> ai_response" where
  "sampleAI \<equiv>
     (\<lambda>q t. if t = ''Rust 2.0 released'' then AiResolves (Some (7 / 10))
            else AiResolves (Some (3 / 10)))"

abbreviation sampleEnv :: Env where
  "sampleEnv \<equiv> \<lparr>HN_KV = sampleKV, NTFY_TOPIC = ''alerts'', AI = sampleAI\<rparr>"

text \<open>Variants: a scorer that accepts everything, one that rejects, a search that fails.\<close>

abbreviation sampleEnvAllRelevant :: Env where
  "sampleEnvAllRelevant \<equiv>
     \<lparr>HN_KV = sampleKV, NTFY_TOPIC = ''alerts'', AI = (\<lambda>q t. AiResolves (Some (9 / 10)))\<rparr>"

abbreviation sampleEnvScorerRejects :: Env where
  "sampleEnvScorerRejects \<equiv> \<lparr>HN_KV = sampleKV, NTFY_TOPIC = ''alerts'', AI = (\<lambda>q t. AiRejects)\<rparr>"

abbreviation samplePlatformRustFails :: Platform where
  "samplePlatformRustFails \<equiv>
     \<lparr>fetchSearch = (\<lambda>q t. if q = ''rust'' then Resolves 503 None
                            else Resolves 200 (Some [sampleComment])),
      fetchNtfy = (\<lambda>r. True), dateNowDefault = 1700000900100, dateNow = 1700000900123\<rparr>"

text \<open>The same failing search, with a post to ntfy.sh that is rejected.\<close>

abbreviation samplePlatformPostRejected :: Platform where
  "samplePlatformPostRejected \<equiv>
     \<lparr>fetchSearch = (\<lambda>q t. if q = ''rust'' then Resolves 503 None
                            else Resolves 200 (Some [sampleComment])),
      fetchNtfy = (\<lambda>r. False), dateNowDefault = 1700000900100, dateNow = 1700000900123\<rparr>"

section \<open>Properties\<close>

subsection \<open>Normalising a keyword\<close>

lemma of_char_lowerChar:
  "of_char (lowerChar c) =
     (let n = (of_char c :: nat)
      in if (65 \<le> n \<and> n \<le> 90) \<or> (192 \<le> n \<and> n \<le> 222 \<and> n \<noteq> 215) then n + 32 else n)"
  unfolding lowerChar_def Let_def
  by (simp add: of_char_of [where ?'a = nat])

lemma isWhiteSpace_lowerChar: "isWhiteSpace (lowerChar c) = isWhiteSpace c"
  unfolding isWhiteSpace_def of_char_lowerChar Let_def
  by auto

lemma lowerChar_idem: "lowerChar (lowerChar c) = lowerChar c"
proof -
  have "(of_char (lowerChar (lowerChar c)) :: nat) = of_char (lowerChar c)"
    unfolding of_char_lowerChar Let_def by auto
  then show ?thesis by (metis char_of_char)
qed

lemma dropWhile_isWhiteSpace_lower:
  "dropWhile isWhiteSpace (map lowerChar s) = map lowerChar (dropWhile isWhiteSpace s)"
  by (induction s) (simp_all add: isWhiteSpace_lowerChar)

lemma trim_toLowerCase: "trim (toLowerCase s) = toLowerCase (trim s)"
  by (simp add: trim_def toLowerCase_def dropWhile_isWhiteSpace_lower rev_map)

lemma dropWhile_both_ends:
  "dropWhile P (rev (dropWhile P (rev (dropWhile P xs)))) = rev (dropWhile P (rev (dropWhile P xs)))"
proof -
  define ys where "ys = dropWhile P xs"
  define zs where "zs = rev (dropWhile P (rev ys))"
  have split: "ys = zs @ rev (takeWhile P (rev ys))"
    unfolding zs_def by (metis rev_append rev_rev_ident takeWhile_dropWhile_id)
  have "dropWhile P zs = zs"
  proof (cases zs)
    case Nil
    then show ?thesis by simp
  next
    case (Cons z zs')
    with split have "ys = z # (zs' @ rev (takeWhile P (rev ys)))" by simp
    then have "ys \<noteq> []" and "hd ys = z" by (metis list.discI, metis list.sel(1))
    then have "\<not> P z" unfolding ys_def using hd_dropWhile by metis
    then show ?thesis using Cons by simp
  qed
  then show ?thesis unfolding zs_def ys_def .
qed

lemma trim_idem: "trim (trim s) = trim s"
  by (simp add: trim_def dropWhile_both_ends)

lemma normalize_idem: "toLowerCase (trim (toLowerCase (trim k))) = toLowerCase (trim k)"
  by (simp add: trim_toLowerCase trim_idem) (simp add: toLowerCase_def lowerChar_idem)

lemma isNormalized_normalize:
  "toLowerCase (trim k) \<noteq> [] \<Longrightarrow> isNormalized (toLowerCase (trim k))"
  by (simp add: isNormalized_def normalize_idem)

subsection \<open>The keyword store\<close>

lemma getKeywords_put [simp]:
  "getKeywords (kv\<lparr>KEYWORDS_KEY := Some (ConfigArray ks)\<rparr>) = ks"
  by (simp add: getKeywords_def)

lemma find_None_keyword:
  "find (\<lambda>e. keyword e = n) ks = None \<longleftrightarrow> n \<notin> keyword ` set ks"
  by (auto simp: find_None_iff)

lemma map_keyword_setContextOfFirst [simp]:
  "map keyword (setContextOfFirst n c ks) = map keyword ks"
  by (induction ks) auto

lemma setContextOfFirst_update:
  "n \<in> keyword ` set ks \<Longrightarrow>
   \<exists>i<length ks. keyword (ks ! i) = n \<and> (\<forall>j<i. keyword (ks ! j) \<noteq> n)
      \<and> setContextOfFirst n c ks = ks[i := (ks ! i)\<lparr>kcontext := c\<rparr>]"
proof (induction ks)
  case Nil
  then show ?case by simp
next
  case (Cons k ks)
  show ?case
  proof (cases "keyword k = n")
    case True
    then have "0 < length (k # ks) \<and> keyword ((k # ks) ! 0) = n
      \<and> (\<forall>j<0. keyword ((k # ks) ! j) \<noteq> n)
      \<and> setContextOfFirst n c (k # ks) = (k # ks)[0 := ((k # ks) ! 0)\<lparr>kcontext := c\<rparr>]"
      by simp
    then show ?thesis by blast
  next
    case False
    with Cons.prems have "n \<in> keyword ` set ks" by auto
    from Cons.IH[OF this] obtain i where i: "i < length ks" "keyword (ks ! i) = n"
      "\<forall>j<i. keyword (ks ! j) \<noteq> n"
      "setContextOfFirst n c ks = ks[i := (ks ! i)\<lparr>kcontext := c\<rparr>]"
      by blast
    have "\<forall>j<Suc i. keyword ((k # ks) ! j) \<noteq> n"
      using False i(3) by (auto simp: less_Suc_eq_0_disj)
    with i False have "Suc i < length (k # ks) \<and> keyword ((k # ks) ! Suc i) = n
      \<and> (\<forall>j<Suc i. keyword ((k # ks) ! j) \<noteq> n)
      \<and> setContextOfFirst n c (k # ks) = (k # ks)[Suc i := ((k # ks) ! Suc i)\<lparr>kcontext := c\<rparr>]"
      by simp
    then show ?thesis by blast
  qed
qed

lemma addKeyword_cases:
  assumes "toLowerCase (trim k) = n" and "n \<noteq> []"
  shows "addKeyword kv k c =
     (let ks' = (if n \<in> keyword ` set (getKeywords kv)
                 then setContextOfFirst n (trimmedContext c) (getKeywords kv)
                 else getKeywords kv @ [\<lparr>keyword = n, kcontext = trimmedContext c\<rparr>])
      in (Inr ks', kv\<lparr>KEYWORDS_KEY := Some (ConfigArray ks')\<rparr>))"
proof (cases "find (\<lambda>e. keyword e = n) (getKeywords kv)")
  case None
  then have "n \<notin> keyword ` set (getKeywords kv)" by (simp add: find_None_keyword)
  with None assms show ?thesis by (simp add: addKeyword_def Let_def)
next
  case (Some e)
  then have "n \<in> keyword ` set (getKeywords kv)"
    using find_None_keyword[of n "getKeywords kv"] by auto
  with Some assms show ?thesis by (simp add: addKeyword_def Let_def)
qed

lemma filter_keyword_update:
  assumes "i < length ks" "keyword (ks ! i) = n" "length (filter (\<lambda>e. keyword e = n) ks) \<le> 1"
    and "keyword e' = n"
  shows "filter (\<lambda>e. keyword e = n) (ks[i := e']) = [e']"
proof -
  have ks: "ks = take i ks @ ks ! i # drop (Suc i) ks"
    using assms(1) by (simp add: id_take_nth_drop)
  have "length (filter (\<lambda>e. keyword e = n) (take i ks)) + 1
          + length (filter (\<lambda>e. keyword e = n) (drop (Suc i) ks)) \<le> 1"
    using assms(3) by (subst (asm) ks) (simp add: assms(2))
  then have "filter (\<lambda>e. keyword e = n) (take i ks) = []"
    and "filter (\<lambda>e. keyword e = n) (drop (Suc i) ks) = []"
    by auto
  moreover have "ks[i := e'] = take i ks @ e' # drop (Suc i) ks"
    using assms(1) by (simp add: upd_conv_take_nth_drop)
  ultimately show ?thesis using assms(4) by simp
qed

lemma addKeyword_present:
  assumes "toLowerCase (trim k) = n" "n \<noteq> []" "n \<in> keyword ` set (getKeywords kv)"
  shows "\<exists>i<length (getKeywords kv). keyword (getKeywords kv ! i) = n
          \<and> (\<forall>j<i. keyword (getKeywords kv ! j) \<noteq> n)
          \<and> addKeyword kv k c =
              (Inr ((getKeywords kv)[i := \<lparr>keyword = n, kcontext = trimmedContext c\<rparr>]),
               kv\<lparr>KEYWORDS_KEY := Some (ConfigArray
                    ((getKeywords kv)[i := \<lparr>keyword = n, kcontext = trimmedContext c\<rparr>]))\<rparr>)"
proof -
  from setContextOfFirst_update[OF assms(3), of "trimmedContext c"]
  obtain i where i: "i < length (getKeywords kv)" "keyword (getKeywords kv ! i) = n"
    "\<forall>j<i. keyword (getKeywords kv ! j) \<noteq> n"
    "setContextOfFirst n (trimmedContext c) (getKeywords kv)
       = (getKeywords kv)[i := (getKeywords kv ! i)\<lparr>kcontext := trimmedContext c\<rparr>]"
    by blast
  have "(getKeywords kv ! i)\<lparr>kcontext := trimmedContext c\<rparr>
          = \<lparr>keyword = n, kcontext = trimmedContext c\<rparr>"
    using i(2) by (cases "getKeywords kv ! i") simp
  with i show ?thesis
    using addKeyword_cases[OF assms(1,2), of kv c] assms(3) by (auto simp: Let_def)
qed

text \<open>
  C10. When the trimmed, lower-cased keyword is empty, \<^verbatim>\<open>addKeyword\<close> throws the
  empty-keyword error and the namespace is as it was: nothing was written. The route
  \<^verbatim>\<open>POST /keywords\<close> answers with that error and leaves the namespace as it was.
\<close>

theorem addKeyword_empty_keyword:
  "toLowerCase (trim k) = [] \<Longrightarrow>
     addKeyword kv k c = (Inl EmptyKeyword, kv)
   \<and> (HN_KV env = kv \<longrightarrow>
        handleRequest (POST_keywords k c) env p = (ServerError EmptyKeyword, kv, []))"
  by (simp add: addKeyword_def handleRequest_def)

theorem addKeyword_empty_keyword_witness:
  "toLowerCase (trim ''   '') = []
   \<and> addKeyword \<lparr>KEYWORDS_KEY = Some (StringArray [''rust'']), LAST_CHECK_KEY = None\<rparr>
        ''   '' (Some ''systems'')
       = (Inl EmptyKeyword, \<lparr>KEYWORDS_KEY = Some (StringArray [''rust'']), LAST_CHECK_KEY = None\<rparr>)
   \<and> handleRequest (POST_keywords ''   '' (Some ''systems''))
        \<lparr>HN_KV = \<lparr>KEYWORDS_KEY = Some (StringArray [''rust'']), LAST_CHECK_KEY = None\<rparr>,
         NTFY_TOPIC = ''alerts'', AI = (\<lambda>q t. AiResolves None)\<rparr>
        \<lparr>fetchSearch = (\<lambda>q t. Rejects), fetchNtfy = (\<lambda>r. True), dateNowDefault = 0, dateNow = 0\<rparr>
       = (ServerError EmptyKeyword,
          \<lparr>KEYWORDS_KEY = Some (StringArray [''rust'']), LAST_CHECK_KEY = None\<rparr>, [])"
proof -
  have h: "toLowerCase (trim ''   '') = []" by code_simp
  show ?thesis
    using h addKeyword_empty_keyword [OF h,
        of "\<lparr>KEYWORDS_KEY = Some (StringArray [''rust'']), LAST_CHECK_KEY = None\<rparr>"
           "Some ''systems''"
           "\<lparr>HN_KV = \<lparr>KEYWORDS_KEY = Some (StringArray [''rust'']), LAST_CHECK_KEY = None\<rparr>,
             NTFY_TOPIC = ''alerts'', AI = (\<lambda>q t. AiResolves None)\<rparr>"
           "\<lparr>fetchSearch = (\<lambda>q t. Rejects), fetchNtfy = (\<lambda>r. True), dateNowDefault = 0, dateNow = 0\<rparr>"]
    by simp
qed

text \<open>
  C9. When the stored keywords are normalised and pairwise distinct, the sequence that
  \<^verbatim>\<open>addKeyword\<close> returns and the one that \<^verbatim>\<open>removeKeyword\<close> returns have pairwise distinct
  keywords, they are what the namespace then holds, and their keywords are normalised.
\<close>

theorem add_remove_keep_distinct:
  assumes norm: "\<forall>e \<in> set (getKeywords kv). isNormalized (keyword e)"
    and dist: "distinct (map keyword (getKeywords kv))"
  shows "(\<forall>ks' kv'. addKeyword kv k c = (Inr ks', kv') \<longrightarrow>
            distinct (map keyword ks') \<and> getKeywords kv' = ks'
            \<and> (\<forall>e \<in> set ks'. isNormalized (keyword e)))
       \<and> (\<forall>ks' kv'. removeKeyword kv k' = (ks', kv') \<longrightarrow>
            distinct (map keyword ks') \<and> getKeywords kv' = ks'
            \<and> (\<forall>e \<in> set ks'. isNormalized (keyword e)))"
proof (intro conjI allI impI)
  fix ks' kv'
  assume add: "addKeyword kv k c = (Inr ks', kv')"
  define n where "n = toLowerCase (trim k)"
  have ne: "n \<noteq> []" using add by (auto simp: addKeyword_def n_def Let_def)
  note eq = addKeyword_cases[OF n_def[symmetric] ne, of kv c]
  show "getKeywords kv' = ks'" using add eq by (auto simp: Let_def)
  show "distinct (map keyword ks')"
    using add eq dist by (auto simp: Let_def split: if_splits)
  have "map keyword ks' = map keyword (getKeywords kv) \<or> map keyword ks' = map keyword (getKeywords kv) @ [n]"
    using add eq by (auto simp: Let_def split: if_splits)
  then have "set (map keyword ks') = set (map keyword (getKeywords kv))
      \<or> set (map keyword ks') = set (map keyword (getKeywords kv) @ [n])"
    by metis
  then have "keyword ` set ks' = keyword ` set (getKeywords kv)
      \<or> keyword ` set ks' = insert n (keyword ` set (getKeywords kv))"
    by simp
  then have "keyword ` set ks' \<subseteq> insert n (keyword ` set (getKeywords kv))"
    by blast
  then show "\<forall>e \<in> set ks'. isNormalized (keyword e)"
    using norm isNormalized_normalize[of k] ne unfolding n_def by auto
next
  fix ks' kv'
  assume rm: "removeKeyword kv k' = (ks', kv')"
  then have ks': "ks' = filter (\<lambda>e. keyword e \<noteq> toLowerCase (trim k')) (getKeywords kv)"
    and kv': "kv' = kv\<lparr>KEYWORDS_KEY := Some (ConfigArray ks')\<rparr>"
    by (auto simp: removeKeyword_def Let_def)
  show "getKeywords kv' = ks'" using kv' by simp
  show "distinct (map keyword ks')" using dist unfolding ks' by (simp add: distinct_map_filter)
  show "\<forall>e \<in> set ks'. isNormalized (keyword e)" using norm unfolding ks' by simp
qed

theorem add_remove_keep_distinct_witness:
  "isNormalized ''rust'' \<and> isNormalized ''zig''
   \<and> getKeywords \<lparr>KEYWORDS_KEY = Some (ConfigArray
        [\<lparr>keyword = ''rust'', kcontext = Some ''systems programming''\<rparr>,
         \<lparr>keyword = ''zig'', kcontext = None\<rparr>]), LAST_CHECK_KEY = None\<rparr>
       = [\<lparr>keyword = ''rust'', kcontext = Some ''systems programming''\<rparr>,
          \<lparr>keyword = ''zig'', kcontext = None\<rparr>]
   \<and> distinct (map keyword (getKeywords \<lparr>KEYWORDS_KEY = Some (ConfigArray
        [\<lparr>keyword = ''rust'', kcontext = Some ''systems programming''\<rparr>,
         \<lparr>keyword = ''zig'', kcontext = None\<rparr>]), LAST_CHECK_KEY = None\<rparr>))
   \<and> addKeyword \<lparr>KEYWORDS_KEY = Some (ConfigArray
        [\<lparr>keyword = ''rust'', kcontext = Some ''systems programming''\<rparr>,
         \<lparr>keyword = ''zig'', kcontext = None\<rparr>]), LAST_CHECK_KEY = None\<rparr> '' Zig '' (Some ''the language'')
       = (Inr [\<lparr>keyword = ''rust'', kcontext = Some ''systems programming''\<rparr>,
               \<lparr>keyword = ''zig'', kcontext = Some ''the language''\<rparr>],
          \<lparr>KEYWORDS_KEY = Some (ConfigArray
             [\<lparr>keyword = ''rust'', kcontext = Some ''systems programming''\<rparr>,
              \<lparr>keyword = ''zig'', kcontext = Some ''the language''\<rparr>]), LAST_CHECK_KEY = None\<rparr>)
   \<and> distinct (map keyword [\<lparr>keyword = ''rust'', kcontext = Some ''systems programming''\<rparr>,
               \<lparr>keyword = ''zig'', kcontext = Some ''the language''\<rparr>])
   \<and> removeKeyword \<lparr>KEYWORDS_KEY = Some (ConfigArray
        [\<lparr>keyword = ''rust'', kcontext = Some ''systems programming''\<rparr>,
         \<lparr>keyword = ''zig'', kcontext = None\<rparr>]), LAST_CHECK_KEY = None\<rparr> ''RUST''
       = ([\<lparr>keyword = ''zig'', kcontext = None\<rparr>],
          \<lparr>KEYWORDS_KEY = Some (ConfigArray [\<lparr>keyword = ''zig'', kcontext = None\<rparr>]),
           LAST_CHECK_KEY = None\<rparr>)
   \<and> distinct (map keyword [\<lparr>keyword = ''zig'', kcontext = None\<rparr>])"
proof -
  let ?kv = "\<lparr>KEYWORDS_KEY = Some (ConfigArray
        [\<lparr>keyword = ''rust'', kcontext = Some ''systems programming''\<rparr>,
         \<lparr>keyword = ''zig'', kcontext = None\<rparr>]), LAST_CHECK_KEY = None\<rparr>"
  have ks: "getKeywords ?kv = [\<lparr>keyword = ''rust'', kcontext = Some ''systems programming''\<rparr>,
         \<lparr>keyword = ''zig'', kcontext = None\<rparr>]"
    by (simp add: getKeywords_def)
  have n1: "isNormalized ''rust''" and n2: "isNormalized ''zig''" by code_simp+
  have h1: "\<forall>e \<in> set (getKeywords ?kv). isNormalized (keyword e)"
    unfolding ks using n1 n2 by simp
  have h2: "distinct (map keyword (getKeywords ?kv))" unfolding ks by simp
  have nz: "toLowerCase (trim '' Zig '') = ''zig''" and tc: "trim ''the language'' = ''the language''"
    and nr: "toLowerCase (trim ''RUST'') = ''rust''"
    by code_simp+
  have a: "addKeyword ?kv '' Zig '' (Some ''the language'')
       = (Inr [\<lparr>keyword = ''rust'', kcontext = Some ''systems programming''\<rparr>,
               \<lparr>keyword = ''zig'', kcontext = Some ''the language''\<rparr>],
          \<lparr>KEYWORDS_KEY = Some (ConfigArray
             [\<lparr>keyword = ''rust'', kcontext = Some ''systems programming''\<rparr>,
              \<lparr>keyword = ''zig'', kcontext = Some ''the language''\<rparr>]), LAST_CHECK_KEY = None\<rparr>)"
    by (simp add: addKeyword_def ks nz tc trimmedContext_def Let_def)
  have r: "removeKeyword ?kv ''RUST''
       = ([\<lparr>keyword = ''zig'', kcontext = None\<rparr>],
          \<lparr>KEYWORDS_KEY = Some (ConfigArray [\<lparr>keyword = ''zig'', kcontext = None\<rparr>]),
           LAST_CHECK_KEY = None\<rparr>)"
    by (simp add: removeKeyword_def ks nr Let_def)
  show ?thesis
    using n1 n2 ks h2 a r
      add_remove_keep_distinct [OF h1 h2, of "'' Zig ''" "Some ''the language''" "''RUST''"]
    by simp
qed

text \<open>
  C3, as amended. When the store holds at most one entry with keyword \<open>n\<close>, the
  normalisation of \<open>k\<close>, and \<open>n\<close> is not empty, then \<^verbatim>\<open>addKeyword(k, c1)\<close> followed by
  \<^verbatim>\<open>addKeyword(k, c2)\<close> succeeds twice and the stored sequence has exactly one entry with
  keyword \<open>n\<close>; its context is \<open>c2\<close> trimmed, absent when \<open>c2\<close> is blank or omitted. An
  entry that was there keeps its place, and nothing else changes; otherwise the entry is
  the last one.
\<close>

theorem addKeyword_twice:
  assumes n: "toLowerCase (trim k) = n" and ne: "n \<noteq> []"
    and once: "length (filter (\<lambda>e. keyword e = n) (getKeywords kv)) \<le> 1"
  shows "\<exists>ks1 kv1 ks2 kv2.
           addKeyword kv k c1 = (Inr ks1, kv1) \<and> addKeyword kv1 k c2 = (Inr ks2, kv2)
         \<and> getKeywords kv2 = ks2
         \<and> filter (\<lambda>e. keyword e = n) ks2 = [\<lparr>keyword = n, kcontext = trimmedContext c2\<rparr>]
         \<and> (if n \<in> keyword ` set (getKeywords kv)
            then \<exists>i<length (getKeywords kv). keyword (getKeywords kv ! i) = n
                   \<and> ks2 = (getKeywords kv)[i := \<lparr>keyword = n, kcontext = trimmedContext c2\<rparr>]
            else ks2 = getKeywords kv @ [\<lparr>keyword = n, kcontext = trimmedContext c2\<rparr>])"
proof (cases "n \<in> keyword ` set (getKeywords kv)")
  case True
  let ?ks = "getKeywords kv"
  from addKeyword_present[OF n ne True, of c1]
  obtain i where i: "i < length ?ks" "keyword (?ks ! i) = n" "\<forall>j<i. keyword (?ks ! j) \<noteq> n"
    and a1: "addKeyword kv k c1 = (Inr (?ks[i := \<lparr>keyword = n, kcontext = trimmedContext c1\<rparr>]),
               kv\<lparr>KEYWORDS_KEY := Some (ConfigArray
                    (?ks[i := \<lparr>keyword = n, kcontext = trimmedContext c1\<rparr>]))\<rparr>)"
    by blast
  let ?ks1 = "?ks[i := \<lparr>keyword = n, kcontext = trimmedContext c1\<rparr>]"
  let ?kv1 = "kv\<lparr>KEYWORDS_KEY := Some (ConfigArray ?ks1)\<rparr>"
  have g1: "getKeywords ?kv1 = ?ks1" by simp
  have "?ks1 ! i \<in> set ?ks1" using i(1) by (metis length_list_update nth_mem)
  moreover have "keyword (?ks1 ! i) = n" using i(1) by simp
  ultimately have in1: "n \<in> keyword ` set (getKeywords ?kv1)"
    unfolding g1 by (metis image_eqI)
  from addKeyword_present[OF n ne in1, of c2]
  obtain j where j: "j < length ?ks1" "keyword (?ks1 ! j) = n" "\<forall>j'<j. keyword (?ks1 ! j') \<noteq> n"
    and a2: "addKeyword ?kv1 k c2 = (Inr (?ks1[j := \<lparr>keyword = n, kcontext = trimmedContext c2\<rparr>]),
               ?kv1\<lparr>KEYWORDS_KEY := Some (ConfigArray
                    (?ks1[j := \<lparr>keyword = n, kcontext = trimmedContext c2\<rparr>]))\<rparr>)"
    unfolding g1 by blast
  have "j = i"
  proof (rule ccontr)
    assume "j \<noteq> i"
    then consider "j < i" | "i < j" by linarith
    then show False
    proof cases
      case 1
      then have "keyword (?ks ! j) = n" using j(2) by simp
      with i(3) 1 show False by blast
    next
      case 2
      then have "keyword (?ks1 ! i) \<noteq> n" using j(3) by blast
      then show False using i(1) by simp
    qed
  qed
  let ?ks2 = "?ks[i := \<lparr>keyword = n, kcontext = trimmedContext c2\<rparr>]"
  let ?kv2 = "?kv1\<lparr>KEYWORDS_KEY := Some (ConfigArray ?ks2)\<rparr>"
  have ks2: "?ks1[j := \<lparr>keyword = n, kcontext = trimmedContext c2\<rparr>] = ?ks2"
    using \<open>j = i\<close> by simp
  have f: "filter (\<lambda>e. keyword e = n) ?ks2 = [\<lparr>keyword = n, kcontext = trimmedContext c2\<rparr>]"
    by (rule filter_keyword_update[OF i(1,2) once]) simp
  have a2': "addKeyword ?kv1 k c2 = (Inr ?ks2, ?kv2)" using a2 unfolding ks2 .
  have g2: "getKeywords ?kv2 = ?ks2" by (rule getKeywords_put)
  have pos: "\<exists>i<length ?ks. keyword (?ks ! i) = n
                \<and> ?ks2 = ?ks[i := \<lparr>keyword = n, kcontext = trimmedContext c2\<rparr>]"
    using i(1,2) by blast
  show ?thesis
    apply (rule exI[of _ ?ks1], rule exI[of _ ?kv1], rule exI[of _ ?ks2], rule exI[of _ ?kv2])
    using a1 a2' g2 f pos True by (simp only: if_True simp_thms)
next
  case False
  let ?ks = "getKeywords kv"
  let ?ks1 = "?ks @ [\<lparr>keyword = n, kcontext = trimmedContext c1\<rparr>]"
  let ?kv1 = "kv\<lparr>KEYWORDS_KEY := Some (ConfigArray ?ks1)\<rparr>"
  have a1: "addKeyword kv k c1 = (Inr ?ks1, ?kv1)"
    using addKeyword_cases[OF n ne, of kv c1] False by (simp add: Let_def)
  have g1: "getKeywords ?kv1 = ?ks1" by simp
  have in1: "n \<in> keyword ` set (getKeywords ?kv1)" unfolding g1 by (simp add: image_iff)
  from addKeyword_present[OF n ne in1, of c2]
  obtain j where j: "j < length ?ks1" "keyword (?ks1 ! j) = n"
    and a2: "addKeyword ?kv1 k c2 = (Inr (?ks1[j := \<lparr>keyword = n, kcontext = trimmedContext c2\<rparr>]),
               ?kv1\<lparr>KEYWORDS_KEY := Some (ConfigArray
                    (?ks1[j := \<lparr>keyword = n, kcontext = trimmedContext c2\<rparr>]))\<rparr>)"
    unfolding g1 by blast
  have "j = length ?ks"
  proof (rule ccontr)
    assume "j \<noteq> length ?ks"
    then have lt: "j < length ?ks" using j(1) by simp
    then have "keyword (?ks ! j) = n" using j(2) by (simp add: nth_append)
    then show False using False lt by (metis image_eqI nth_mem)
  qed
  let ?ks2 = "?ks @ [\<lparr>keyword = n, kcontext = trimmedContext c2\<rparr>]"
  let ?kv2 = "?kv1\<lparr>KEYWORDS_KEY := Some (ConfigArray ?ks2)\<rparr>"
  have ks2: "?ks1[j := \<lparr>keyword = n, kcontext = trimmedContext c2\<rparr>] = ?ks2"
    using \<open>j = length ?ks\<close> by simp
  have "filter (\<lambda>e. keyword e = n) ?ks = []" using False by (auto simp: filter_empty_conv)
  then have f: "filter (\<lambda>e. keyword e = n) ?ks2 = [\<lparr>keyword = n, kcontext = trimmedContext c2\<rparr>]"
    by simp
  have a2': "addKeyword ?kv1 k c2 = (Inr ?ks2, ?kv2)" using a2 unfolding ks2 .
  have g2: "getKeywords ?kv2 = ?ks2" by (rule getKeywords_put)
  show ?thesis
    apply (rule exI[of _ ?ks1], rule exI[of _ ?kv1], rule exI[of _ ?ks2], rule exI[of _ ?kv2])
    using a1 a2' g2 f False by (simp only: if_False simp_thms)
qed

theorem addKeyword_twice_witness:
  "toLowerCase (trim '' Rust '') = ''rust'' \<and> ''rust'' \<noteq> []
   \<and> length (filter (\<lambda>e. keyword e = ''rust'')
        (getKeywords \<lparr>KEYWORDS_KEY = Some (StringArray [''rust'', ''zig'']), LAST_CHECK_KEY = None\<rparr>)) \<le> 1
   \<and> addKeyword (snd (addKeyword
          \<lparr>KEYWORDS_KEY = Some (StringArray [''rust'', ''zig'']), LAST_CHECK_KEY = None\<rparr>
          '' Rust '' (Some ''systems'')))
        '' Rust '' (Some '' memory safety '')
       = (Inr [\<lparr>keyword = ''rust'', kcontext = Some ''memory safety''\<rparr>,
               \<lparr>keyword = ''zig'', kcontext = None\<rparr>],
          \<lparr>KEYWORDS_KEY = Some (ConfigArray
             [\<lparr>keyword = ''rust'', kcontext = Some ''memory safety''\<rparr>,
              \<lparr>keyword = ''zig'', kcontext = None\<rparr>]), LAST_CHECK_KEY = None\<rparr>)
   \<and> filter (\<lambda>e. keyword e = ''rust'')
        [\<lparr>keyword = ''rust'', kcontext = Some ''memory safety''\<rparr>, \<lparr>keyword = ''zig'', kcontext = None\<rparr>]
       = [\<lparr>keyword = ''rust'', kcontext = trimmedContext (Some '' memory safety '')\<rparr>]"
proof -
  let ?kv = "\<lparr>KEYWORDS_KEY = Some (StringArray [''rust'', ''zig'']), LAST_CHECK_KEY = None\<rparr>"
  have ks: "getKeywords ?kv = [\<lparr>keyword = ''rust'', kcontext = None\<rparr>, \<lparr>keyword = ''zig'', kcontext = None\<rparr>]"
    by (simp add: getKeywords_def)
  have h1: "toLowerCase (trim '' Rust '') = ''rust''" by code_simp
  have h2: "''rust'' \<noteq> []" by simp
  have h3: "length (filter (\<lambda>e. keyword e = ''rust'') (getKeywords ?kv)) \<le> 1"
    unfolding ks by simp
  have t1: "trimmedContext (Some ''systems'') = Some ''systems''"
    and t2: "trimmedContext (Some '' memory safety '') = Some ''memory safety''"
    by code_simp+
  from addKeyword_twice [OF h1 h2 h3, of "Some ''systems''" "Some '' memory safety ''"]
  obtain ks1 kv1 ks2 kv2 where
    a1: "addKeyword ?kv '' Rust '' (Some ''systems'') = (Inr ks1, kv1)"
    and a2: "addKeyword kv1 '' Rust '' (Some '' memory safety '') = (Inr ks2, kv2)"
    and g: "getKeywords kv2 = ks2"
    and f: "filter (\<lambda>e. keyword e = ''rust'') ks2
              = [\<lparr>keyword = ''rust'', kcontext = trimmedContext (Some '' memory safety '')\<rparr>]"
    by blast
  have e1: "addKeyword ?kv '' Rust '' (Some ''systems'')
      = (Inr [\<lparr>keyword = ''rust'', kcontext = Some ''systems''\<rparr>, \<lparr>keyword = ''zig'', kcontext = None\<rparr>],
         \<lparr>KEYWORDS_KEY = Some (ConfigArray
            [\<lparr>keyword = ''rust'', kcontext = Some ''systems''\<rparr>, \<lparr>keyword = ''zig'', kcontext = None\<rparr>]),
          LAST_CHECK_KEY = None\<rparr>)"
    by (simp add: addKeyword_def ks h1 t1 Let_def)
  have e2: "addKeyword \<lparr>KEYWORDS_KEY = Some (ConfigArray
            [\<lparr>keyword = ''rust'', kcontext = Some ''systems''\<rparr>, \<lparr>keyword = ''zig'', kcontext = None\<rparr>]),
          LAST_CHECK_KEY = None\<rparr> '' Rust '' (Some '' memory safety '')
      = (Inr [\<lparr>keyword = ''rust'', kcontext = Some ''memory safety''\<rparr>, \<lparr>keyword = ''zig'', kcontext = None\<rparr>],
         \<lparr>KEYWORDS_KEY = Some (ConfigArray
            [\<lparr>keyword = ''rust'', kcontext = Some ''memory safety''\<rparr>, \<lparr>keyword = ''zig'', kcontext = None\<rparr>]),
          LAST_CHECK_KEY = None\<rparr>)"
    by (simp add: addKeyword_def getKeywords_def h1 t2 Let_def)
  have kv1: "kv1 = \<lparr>KEYWORDS_KEY = Some (ConfigArray
            [\<lparr>keyword = ''rust'', kcontext = Some ''systems''\<rparr>, \<lparr>keyword = ''zig'', kcontext = None\<rparr>]),
          LAST_CHECK_KEY = None\<rparr>"
    using a1 e1 by (metis prod.inject)
  have ks2: "ks2 = [\<lparr>keyword = ''rust'', kcontext = Some ''memory safety''\<rparr>, \<lparr>keyword = ''zig'', kcontext = None\<rparr>]"
    using a2 e2 unfolding kv1 by (metis prod.inject sum.inject(2))
  show ?thesis using h1 h3 e1 e2 f ks2 by simp
qed

text \<open>
  C3 as it is stated fails. From a stored array with the keyword twice, two calls of
  \<^verbatim>\<open>addKeyword\<close> leave two entries with that keyword, since \<^verbatim>\<open>find\<close> returns the first
  only; and the context that is stored is \<^verbatim>\<open>" memory safety "\<close> trimmed, not as given.
\<close>

theorem addKeyword_twice_counterexample:
  "addKeyword (snd (addKeyword
       \<lparr>KEYWORDS_KEY = Some (StringArray [''rust'', ''rust'']), LAST_CHECK_KEY = None\<rparr>
       ''rust'' (Some ''systems'')))
     ''rust'' (Some '' memory safety '')
   = (Inr [\<lparr>keyword = ''rust'', kcontext = Some ''memory safety''\<rparr>,
           \<lparr>keyword = ''rust'', kcontext = None\<rparr>],
      \<lparr>KEYWORDS_KEY = Some (ConfigArray
         [\<lparr>keyword = ''rust'', kcontext = Some ''memory safety''\<rparr>,
          \<lparr>keyword = ''rust'', kcontext = None\<rparr>]), LAST_CHECK_KEY = None\<rparr>)"
proof -
  have n: "toLowerCase (trim ''rust'') = ''rust''" by code_simp
  have t1: "trimmedContext (Some ''systems'') = Some ''systems''"
    and t2: "trimmedContext (Some '' memory safety '') = Some ''memory safety''"
    by code_simp+
  show ?thesis by (simp add: addKeyword_def getKeywords_def n t1 t2 Let_def)
qed

text \<open>
  C7. A stored array of strings is read as one entry per string, in order, with that
  string as keyword and no context; with nothing stored the list is empty. Listing the
  keywords (\<^verbatim>\<open>GET /keywords\<close>) leaves the namespace as it was. The stored value changes
  with the next \<^verbatim>\<open>addKeyword\<close> that succeeds or the next \<^verbatim>\<open>removeKeyword\<close>, which store the
  array of entries they return.
\<close>

theorem getKeywords_legacy_read_only:
  "(KEYWORDS_KEY kv = Some (StringArray ss) \<longrightarrow>
      getKeywords kv = map (\<lambda>s. \<lparr>keyword = s, kcontext = None\<rparr>) ss)
   \<and> (KEYWORDS_KEY kv0 = None \<longrightarrow> getKeywords kv0 = [])
   \<and> handleRequest GET_keywords env p = (KeywordsPayload (getKeywords (HN_KV env)), HN_KV env, [])
   \<and> (addKeyword kv k c = (Inr ks', kv') \<longrightarrow> KEYWORDS_KEY kv' = Some (ConfigArray ks'))
   \<and> KEYWORDS_KEY (snd (removeKeyword kv k)) = Some (ConfigArray (fst (removeKeyword kv k)))"
  by (auto simp: getKeywords_def handleRequest_def addKeyword_def removeKeyword_def Let_def
           split: if_splits)

theorem getKeywords_legacy_read_only_witness:
  "KEYWORDS_KEY \<lparr>KEYWORDS_KEY = Some (StringArray [''rust'', ''zig'']), LAST_CHECK_KEY = None\<rparr>
     = Some (StringArray [''rust'', ''zig''])
   \<and> getKeywords \<lparr>KEYWORDS_KEY = Some (StringArray [''rust'', ''zig'']), LAST_CHECK_KEY = None\<rparr>
     = [\<lparr>keyword = ''rust'', kcontext = None\<rparr>, \<lparr>keyword = ''zig'', kcontext = None\<rparr>]
   \<and> KEYWORDS_KEY \<lparr>KEYWORDS_KEY = None, LAST_CHECK_KEY = Some ''1700000000''\<rparr> = None
   \<and> getKeywords \<lparr>KEYWORDS_KEY = None, LAST_CHECK_KEY = Some ''1700000000''\<rparr> = []
   \<and> addKeyword \<lparr>KEYWORDS_KEY = Some (StringArray [''rust'', ''zig'']), LAST_CHECK_KEY = None\<rparr>
        ''go'' None
      = (Inr [\<lparr>keyword = ''rust'', kcontext = None\<rparr>, \<lparr>keyword = ''zig'', kcontext = None\<rparr>,
              \<lparr>keyword = ''go'', kcontext = None\<rparr>],
         \<lparr>KEYWORDS_KEY = Some (ConfigArray
            [\<lparr>keyword = ''rust'', kcontext = None\<rparr>, \<lparr>keyword = ''zig'', kcontext = None\<rparr>,
             \<lparr>keyword = ''go'', kcontext = None\<rparr>]), LAST_CHECK_KEY = None\<rparr>)
   \<and> KEYWORDS_KEY \<lparr>KEYWORDS_KEY = Some (ConfigArray
            [\<lparr>keyword = ''rust'', kcontext = None\<rparr>, \<lparr>keyword = ''zig'', kcontext = None\<rparr>,
             \<lparr>keyword = ''go'', kcontext = None\<rparr>]), LAST_CHECK_KEY = None\<rparr>
      = Some (ConfigArray
            [\<lparr>keyword = ''rust'', kcontext = None\<rparr>, \<lparr>keyword = ''zig'', kcontext = None\<rparr>,
             \<lparr>keyword = ''go'', kcontext = None\<rparr>])"
proof -
  let ?kv = "\<lparr>KEYWORDS_KEY = Some (StringArray [''rust'', ''zig'']), LAST_CHECK_KEY = None\<rparr>"
  let ?empty = "\<lparr>KEYWORDS_KEY = None, LAST_CHECK_KEY = Some ''1700000000''\<rparr>"
  let ?ks' = "[\<lparr>keyword = ''rust'', kcontext = None\<rparr>, \<lparr>keyword = ''zig'', kcontext = None\<rparr>,
              \<lparr>keyword = ''go'', kcontext = None\<rparr>]"
  have h1: "KEYWORDS_KEY ?kv = Some (StringArray [''rust'', ''zig''])" by simp
  have h2: "KEYWORDS_KEY ?empty = None" by simp
  have n: "toLowerCase (trim ''go'') = ''go''" by code_simp
  have h3: "addKeyword ?kv ''go'' None
      = (Inr ?ks', \<lparr>KEYWORDS_KEY = Some (ConfigArray ?ks'), LAST_CHECK_KEY = None\<rparr>)"
    by (simp add: addKeyword_def getKeywords_def n trimmedContext_def Let_def)
  show ?thesis
    using h1 h2 h3
      getKeywords_legacy_read_only [of ?kv "[''rust'', ''zig'']" ?empty _ _ "''go''" None ?ks'
        "\<lparr>KEYWORDS_KEY = Some (ConfigArray ?ks'), LAST_CHECK_KEY = None\<rparr>"]
    by simp
qed

subsection \<open>The loops of the cycle\<close>

lemma scanCandidates_append:
  "scanCandidates env (cs @ ds) s = scanCandidates env ds (scanCandidates env cs s)"
  by (induction cs arbitrary: s) simp_all

lemma scanHits_candidates:
  "scanHits env (keyword k) (kcontext k) hs s = scanCandidates env (map (Pair k) hs) s"
  by (induction hs arbitrary: s) simp_all

lemma scanKeywords_candidates:
  "scanKeywords env p t ks s = scanCandidates env (candidates p t ks) s"
proof (induction ks arbitrary: s)
  case Nil
  then show ?case by simp
next
  case (Cons k ks)
  show ?case
  proof (cases "searchHN p (keyword k) t")
    case (Inl e)
    then show ?thesis using Cons.IH by simp
  next
    case (Inr hits)
    then show ?thesis
      using Cons.IH by (simp add: scanCandidates_append scanHits_candidates)
  qed
qed

lemma processHit_seen:
  "objectID (snd c) \<in> seenIds s \<Longrightarrow>
     processHit env (keyword (fst c)) (kcontext (fst c)) (snd c) s = s"
  by (simp add: processHit_def)

lemma processHit_below:
  "objectID (snd c) \<notin> seenIds s \<Longrightarrow> scoredBelow env c \<Longrightarrow>
     processHit env (keyword (fst c)) (kcontext (fst c)) (snd c) s
       = s\<lparr>seenIds := insert (objectID (snd c)) (seenIds s),
            filteredCount := filteredCount s + 1\<rparr>"
  by (auto simp: processHit_def scoredBelow_def truthy_def Let_def split: option.splits sum.splits)

lemma processHit_pushed:
  "objectID (snd c) \<notin> seenIds s \<Longrightarrow> \<not> scoredBelow env c \<Longrightarrow>
     processHit env (keyword (fst c)) (kcontext (fst c)) (snd c) s
       = s\<lparr>seenIds := insert (objectID (snd c)) (seenIds s),
            matches := matches s @ [toMatch c]\<rparr>"
  by (auto simp: processHit_def scoredBelow_def truthy_def toMatch_def Let_def
           split: option.splits sum.splits)

lemma scanCandidates_result:
  "scanCandidates env cs s =
     \<lparr>seenIds = seenIds s \<union> (\<lambda>c. objectID (snd c)) ` set cs,
      matches = matches s
                @ map toMatch (filter (\<lambda>c. \<not> scoredBelow env c) (firstSightings (seenIds s) cs)),
      filteredCount = filteredCount s
                      + length (filter (scoredBelow env) (firstSightings (seenIds s) cs))\<rparr>"
proof (induction cs arbitrary: s)
  case Nil
  then show ?case by simp
next
  case (Cons c cs)
  consider (seen) "objectID (snd c) \<in> seenIds s"
    | (below) "objectID (snd c) \<notin> seenIds s" "scoredBelow env c"
    | (pushed) "objectID (snd c) \<notin> seenIds s" "\<not> scoredBelow env c"
    by blast
  then show ?case
  proof cases
    case seen
    then show ?thesis
      using Cons.IH[of s] by (simp add: processHit_seen insert_absorb)
  next
    case below
    then show ?thesis
      using Cons.IH[of "s\<lparr>seenIds := insert (objectID (snd c)) (seenIds s),
            filteredCount := filteredCount s + 1\<rparr>"]
      by (simp add: processHit_below)
  next
    case pushed
    then show ?thesis
      using Cons.IH[of "s\<lparr>seenIds := insert (objectID (snd c)) (seenIds s),
            matches := matches s @ [toMatch c]\<rparr>"]
      by (simp add: processHit_pushed)
  qed
qed

lemma firstSightings_subset:
  "c \<in> set (firstSightings seen cs) \<Longrightarrow> c \<in> set cs \<and> objectID (snd c) \<notin> seen"
  by (induction cs arbitrary: seen) (auto split: if_splits)

lemma firstSightings_distinct:
  "distinct (map (\<lambda>c. objectID (snd c)) (firstSightings seen cs))"
proof (induction cs arbitrary: seen)
  case Nil
  then show ?case by simp
next
  case (Cons c cs)
  have "\<forall>d \<in> set (firstSightings (insert (objectID (snd c)) seen) cs).
          objectID (snd d) \<noteq> objectID (snd c)"
    by (metis firstSightings_subset insertI1)
  then have "objectID (snd c)
      \<notin> (\<lambda>d. objectID (snd d)) ` set (firstSightings (insert (objectID (snd c)) seen) cs)"
    by (metis (mono_tags, lifting) imageE)
  then show ?case using Cons.IH by simp
qed

lemma firstSightings_find:
  "c \<in> set (firstSightings seen cs) \<Longrightarrow>
     find (\<lambda>d. objectID (snd d) = objectID (snd c)) cs = Some c"
proof (induction cs arbitrary: seen)
  case Nil
  then show ?case by simp
next
  case (Cons d cs)
  show ?case
  proof (cases "objectID (snd d) = objectID (snd c)")
    case True
    show ?thesis
    proof (cases "objectID (snd d) \<in> seen")
      case seen: True
      with Cons.prems have "c \<in> set (firstSightings seen cs)" by simp
      then have "objectID (snd c) \<notin> seen" using firstSightings_subset by blast
      with seen True show ?thesis by simp
    next
      case False
      with Cons.prems have "c = d \<or> c \<in> set (firstSightings (insert (objectID (snd d)) seen) cs)"
        by auto
      then have "c = d" using firstSightings_subset[of c "insert (objectID (snd d)) seen" cs] True
        by auto
      then show ?thesis by simp
    qed
  next
    case False
    with Cons.prems have "c \<in> set (firstSightings seen cs)
        \<or> c \<in> set (firstSightings (insert (objectID (snd d)) seen) cs)"
      by (auto split: if_splits)
    then have "find (\<lambda>d. objectID (snd d) = objectID (snd c)) cs = Some c"
      using Cons.IH by blast
    with False show ?thesis by simp
  qed
qed

lemma find_append_cases:
  "find P (xs @ ys) = (case find P xs of None \<Rightarrow> find P ys | Some x \<Rightarrow> Some x)"
  by (induction xs) simp_all

lemma find_map_Pair:
  "find (\<lambda>d. objectID (snd d) = i) (map (Pair k) hs) = map_option (Pair k) (find (\<lambda>h. objectID h = i) hs)"
  by (induction hs) simp_all

lemma find_candidates:
  "find (\<lambda>d. objectID (snd d) = i) (candidates p t ks) = Some (k, h) \<Longrightarrow>
     find (returnsId p t i) ks = Some k
     \<and> (\<exists>hits. searchHN p (keyword k) t = Inr hits \<and> find (\<lambda>h'. objectID h' = i) hits = Some h)"
proof (induction ks)
  case Nil
  then show ?case by simp
next
  case (Cons k' ks)
  show ?case
  proof (cases "returnsId p t i k'")
    case True
    then obtain hits where hits: "searchHN p (keyword k') t = Inr hits" "i \<in> objectID ` set hits"
      by (auto simp: returnsId_def split: sum.splits)
    then obtain h' where h': "find (\<lambda>h. objectID h = i) hits = Some h'"
      by (cases "find (\<lambda>h. objectID h = i) hits") (auto simp: find_None_iff)
    with Cons.prems hits have "k = k'" "h = h'"
      by (auto simp: find_append_cases find_map_Pair)
    with True hits h' show ?thesis by simp
  next
    case False
    then have "find (\<lambda>d. objectID (snd d) = i)
                 (case searchHN p (keyword k') t of Inr hits \<Rightarrow> map (Pair k') hits | Inl e \<Rightarrow> []) = None"
      by (auto simp: returnsId_def find_None_iff split: sum.splits)
    with Cons.prems have "find (\<lambda>d. objectID (snd d) = i) (candidates p t ks) = Some (k, h)"
      by (simp add: find_append_cases)
    from Cons.IH[OF this] False show ?thesis by simp
  qed
qed

lemma matches_scanKeywords:
  "matches (scanKeywords env p t ks initialScan)
     = map toMatch (filter (\<lambda>c. \<not> scoredBelow env c) (firstSightings {} (candidates p t ks)))"
  by (simp add: scanKeywords_candidates scanCandidates_result initialScan_def)

lemma filteredCount_scanKeywords:
  "filteredCount (scanKeywords env p t ks initialScan)
     = length (filter (scoredBelow env) (firstSightings {} (candidates p t ks)))"
  by (simp add: scanKeywords_candidates scanCandidates_result initialScan_def)

lemma seenIds_scanKeywords:
  "seenIds (scanKeywords env p t ks initialScan) = (\<lambda>c. objectID (snd c)) ` set (candidates p t ks)"
  by (simp add: scanKeywords_candidates scanCandidates_result initialScan_def)

lemma toMatch_in_matches:
  assumes "c \<in> set (firstSightings {} (candidates p t ks))"
  shows "toMatch c \<in> set (matches (scanKeywords env p t ks initialScan)) \<longleftrightarrow> \<not> scoredBelow env c"
proof
  let ?fs = "firstSightings {} (candidates p t ks)"
  assume "toMatch c \<in> set (matches (scanKeywords env p t ks initialScan))"
  then have "toMatch c \<in> toMatch ` set (filter (\<lambda>c. \<not> scoredBelow env c) ?fs)"
    unfolding matches_scanKeywords by simp
  then obtain d where d0: "d \<in> set (filter (\<lambda>c. \<not> scoredBelow env c) ?fs)"
    and eq: "toMatch c = toMatch d"
    by (rule imageE)
  from d0 have d: "d \<in> set ?fs" and nb: "\<not> scoredBelow env d" by simp_all
  from eq have ids: "objectID (snd d) = objectID (snd c)" by (simp add: toMatch_def)
  have "find (\<lambda>e. objectID (snd e) = objectID (snd d)) (candidates p t ks) = Some d"
    using d by (rule firstSightings_find)
  moreover have "find (\<lambda>e. objectID (snd e) = objectID (snd c)) (candidates p t ks) = Some c"
    using assms by (rule firstSightings_find)
  ultimately have "d = c" unfolding ids by simp
  with nb show "\<not> scoredBelow env c" by simp
next
  let ?fs = "firstSightings {} (candidates p t ks)"
  assume "\<not> scoredBelow env c"
  with assms have "c \<in> set (filter (\<lambda>c. \<not> scoredBelow env c) ?fs)" by simp
  then have "toMatch c \<in> toMatch ` set (filter (\<lambda>c. \<not> scoredBelow env c) ?fs)"
    by (rule imageI)
  then show "toMatch c \<in> set (matches (scanKeywords env p t ks initialScan))"
    unfolding matches_scanKeywords by simp
qed

subsection \<open>Writing and reading a number\<close>

lemma of_char_digitChar: "d < 10 \<Longrightarrow> (of_char (digitChar d) :: nat) = 48 + d"
proof -
  assume "d < 10"
  then have "d \<in> {0, 1, 2, 3, 4, 5, 6, 7, 8, 9}" by auto
  then show ?thesis by (elim insertE emptyE) (simp_all add: digitChar_def)
qed

lemma isDigit_digitChar: "d < 10 \<Longrightarrow> isDigit (digitChar d)"
  by (simp add: isDigit_def of_char_digitChar)

lemma natToString_digits: "\<forall>c \<in> set (natToString n). isDigit c"
proof (induction n rule: natToString.induct)
  case (1 n)
  show ?case
  proof (cases "n < 10")
    case True
    then show ?thesis by (subst natToString.simps) (simp add: isDigit_digitChar)
  next
    case False
    then show ?thesis
      using "1.IH" by (subst natToString.simps) (simp add: isDigit_digitChar)
  qed
qed

lemma natToString_not_empty: "natToString n \<noteq> []"
  by (subst natToString.simps) simp

lemma digitsValue_snoc: "digitsValue (ds @ [c]) = 10 * digitsValue ds + (of_char c - 48)"
  by (simp add: digitsValue_def)

lemma digitsValue_natToString: "digitsValue (natToString n) = n"
proof (induction n rule: natToString.induct)
  case (1 n)
  show ?case
  proof (cases "n < 10")
    case True
    then show ?thesis
      by (subst natToString.simps) (simp add: digitsValue_def of_char_digitChar)
  next
    case False
    then have "digitsValue (natToString (n div 10)) = n div 10" using "1.IH" by simp
    with False show ?thesis
      by (subst natToString.simps) (simp add: digitsValue_snoc of_char_digitChar)
  qed
qed

lemma parseDigits_natToString: "parseDigits (natToString n) = Some n"
proof -
  have tw: "takeWhile isDigit (natToString n) = natToString n"
    using natToString_digits by (simp add: takeWhile_eq_all_conv)
  show ?thesis
    unfolding parseDigits_def tw Let_def
    by (simp add: natToString_not_empty digitsValue_natToString)
qed

lemma isDigit_not_space: "isDigit c \<Longrightarrow> \<not> isWhiteSpace c"
  by (auto simp: isDigit_def isWhiteSpace_def)

lemma isDigit_not_sign: "isDigit c \<Longrightarrow> c \<noteq> CHR ''-'' \<and> c \<noteq> CHR ''+''"
  by (auto simp: isDigit_def)

lemma parseInt_natToString: "parseInt (natToString n) = Num (int n)"
proof -
  obtain c cs where cs: "natToString n = c # cs"
    using natToString_not_empty by (cases "natToString n") auto
  then have d: "isDigit c" using natToString_digits[of n] by simp
  have "trimStart (natToString n) = c # cs"
    using d cs by (simp add: trimStart_def isDigit_not_space)
  moreover have "parseDigits (c # cs) = Some n" using parseDigits_natToString[of n] cs by simp
  ultimately show ?thesis using isDigit_not_sign[OF d] by (simp add: parseInt_def)
qed

lemma parseInt_toString: "parseInt (toString i) = Num i"
proof (cases "i < 0")
  case True
  have "\<not> isWhiteSpace (CHR ''-'')" by (simp add: isWhiteSpace_def)
  then have "trimStart (CHR ''-'' # natToString (nat (- i))) = CHR ''-'' # natToString (nat (- i))"
    by (simp add: trimStart_def)
  then show ?thesis using True by (simp add: toString_def parseInt_def parseDigits_natToString)
next
  case False
  then show ?thesis by (simp add: toString_def parseInt_natToString)
qed

lemma toString_not_empty: "toString i \<noteq> []"
  by (simp add: toString_def natToString_not_empty)

lemma getLastCheckTimestamp_set:
  "getLastCheckTimestamp (setLastCheckTimestamp kv i) d = Num i"
  by (simp add: getLastCheckTimestamp_def setLastCheckTimestamp_def toString_not_empty parseInt_toString)

subsection \<open>How a cycle ends\<close>

lemma handleScheduled_throws:
  "handleScheduled env p = (Inl e, kv', posted) \<Longrightarrow>
     (e = InvalidTimeValue \<or> e = NotifyRejected) \<and> kv' = HN_KV env \<and> posted = []"
  by (auto simp: handleScheduled_def sendNotification_def Let_def split: if_splits sum.splits)

lemma handleScheduled_unfold:
  assumes "getKeywords (HN_KV env) \<noteq> []" and "NTFY_TOPIC env \<noteq> []"
    and "validTimeValue (getLastCheckTimestamp (HN_KV env) (dateNowDefault p))"
    and "s = scanKeywords env p (getLastCheckTimestamp (HN_KV env) (dateNowDefault p))
               (getKeywords (HN_KV env)) initialScan"
  shows "handleScheduled env p =
     (if matches s = []
      then (Inr (Done (card (seenIds s)) (length (matches s)) (filteredCount s)),
            setLastCheckTimestamp (HN_KV env) (dateNow p div 1000), [])
      else (case sendNotification p (NTFY_TOPIC env)
                   (fst (formatBatchNotification (matches s)))
                   (snd (formatBatchNotification (matches s)))
                   (Some (firstHitUrl (matches s))) of
              Inl e \<Rightarrow> (Inl e, HN_KV env, [])
            | Inr request \<Rightarrow>
                (Inr (Done (card (seenIds s)) (length (matches s)) (filteredCount s)),
                 setLastCheckTimestamp (HN_KV env) (dateNow p div 1000), [request])))"
  using assms(1,2,3) unfolding assms(4)
  by (simp add: handleScheduled_def initialScan_def Let_def split: sum.split)

lemma handleScheduled_returns:
  assumes ret: "handleScheduled env p = (Inr ending, kv', posted)"
    and ks: "getKeywords (HN_KV env) \<noteq> []" and topic: "NTFY_TOPIC env \<noteq> []"
  shows "kv' = setLastCheckTimestamp (HN_KV env) (dateNow p div 1000) \<and> ending \<noteq> Skipped"
proof -
  have valid: "validTimeValue (getLastCheckTimestamp (HN_KV env) (dateNowDefault p))"
  proof (rule ccontr)
    assume "\<not> validTimeValue (getLastCheckTimestamp (HN_KV env) (dateNowDefault p))"
    with ks topic have "handleScheduled env p = (Inl InvalidTimeValue, HN_KV env, [])"
      by (simp add: handleScheduled_def Let_def)
    with ret show False by simp
  qed
  define s where "s = scanKeywords env p (getLastCheckTimestamp (HN_KV env) (dateNowDefault p))
               (getKeywords (HN_KV env)) initialScan"
  note eq = handleScheduled_unfold[OF ks topic valid s_def]
  show ?thesis
  proof (cases "matches s = []")
    case True
    with eq ret show ?thesis by simp
  next
    case False
    show ?thesis
    proof (cases "sendNotification p (NTFY_TOPIC env)
                   (fst (formatBatchNotification (matches s)))
                   (snd (formatBatchNotification (matches s)))
                   (Some (firstHitUrl (matches s)))")
      case (Inl e)
      with eq False ret show ?thesis by simp
    next
      case (Inr request)
      with eq False ret show ?thesis by simp
    qed
  qed
qed

lemma handleScheduled_completes:
  assumes ks: "getKeywords (HN_KV env) \<noteq> []" and topic: "NTFY_TOPIC env \<noteq> []"
    and valid: "validTimeValue (getLastCheckTimestamp (HN_KV env) (dateNowDefault p))"
    and ntfy: "\<forall>r. fetchNtfy p r"
  shows "\<exists>n1 n2 n3 posted. handleScheduled env p
           = (Inr (Done n1 n2 n3), setLastCheckTimestamp (HN_KV env) (dateNow p div 1000), posted)"
proof -
  define s where "s = scanKeywords env p (getLastCheckTimestamp (HN_KV env) (dateNowDefault p))
               (getKeywords (HN_KV env)) initialScan"
  note eq = handleScheduled_unfold[OF ks topic valid s_def]
  show ?thesis
  proof (cases "matches s = []")
    case True
    with eq show ?thesis by simp
  next
    case False
    have "\<exists>request. sendNotification p (NTFY_TOPIC env)
                   (fst (formatBatchNotification (matches s)))
                   (snd (formatBatchNotification (matches s)))
                   (Some (firstHitUrl (matches s))) = Inr request"
      using ntfy by (simp add: sendNotification_def Let_def)
    then obtain request where "sendNotification p (NTFY_TOPIC env)
                   (fst (formatBatchNotification (matches s)))
                   (snd (formatBatchNotification (matches s)))
                   (Some (firstHitUrl (matches s))) = Inr request" ..
    with eq False show ?thesis by simp
  qed
qed

text \<open>
  C1. When a cycle runs to its end with a keyword list that is not empty and a topic that
  is configured, the value under the last-check key is the decimal text of \<open>now\<close>, the
  time in seconds that the cycle computed before its loops, and reading it back gives
  \<open>now\<close>; the keyword list is untouched. The number of matches and the outcome of the
  searches play no part.
\<close>

theorem watermark_is_cycle_time:
  assumes "handleScheduled env p = (Inr ending, kv', posted)"
    and "getKeywords (HN_KV env) \<noteq> []" and "NTFY_TOPIC env \<noteq> []"
  shows "LAST_CHECK_KEY kv' = Some (toString (dateNow p div 1000))
       \<and> getLastCheckTimestamp kv' d = Num (dateNow p div 1000)
       \<and> KEYWORDS_KEY kv' = KEYWORDS_KEY (HN_KV env)
       \<and> ending \<noteq> Skipped"
proof -
  have kv': "kv' = setLastCheckTimestamp (HN_KV env) (dateNow p div 1000)" and e: "ending \<noteq> Skipped"
    using handleScheduled_returns[OF assms] by simp_all
  show ?thesis
    unfolding kv' using e
    by (simp add: getLastCheckTimestamp_set) (simp add: setLastCheckTimestamp_def)
qed

theorem watermark_is_cycle_time_witness:
  "handleScheduled
     \<lparr>HN_KV = \<lparr>KEYWORDS_KEY = Some (StringArray [''rust'', ''zig'']), LAST_CHECK_KEY = None\<rparr>,
      NTFY_TOPIC = ''alerts'', AI = (\<lambda>q t. AiResolves None)\<rparr>
     \<lparr>fetchSearch = (\<lambda>q t. if q = ''rust'' then Resolves 503 None else Resolves 200 (Some [])),
      fetchNtfy = (\<lambda>r. False), dateNowDefault = 1700000900100, dateNow = 1700000900123\<rparr>
    = (Inr (Done 0 0 0),
       \<lparr>KEYWORDS_KEY = Some (StringArray [''rust'', ''zig'']), LAST_CHECK_KEY = Some ''1700000900''\<rparr>,
       [])
   \<and> getKeywords \<lparr>KEYWORDS_KEY = Some (StringArray [''rust'', ''zig'']), LAST_CHECK_KEY = None\<rparr> \<noteq> []
   \<and> ''alerts'' \<noteq> []
   \<and> LAST_CHECK_KEY \<lparr>KEYWORDS_KEY = Some (StringArray [''rust'', ''zig'']),
                      LAST_CHECK_KEY = Some ''1700000900''\<rparr>
       = Some (toString (1700000900123 div 1000))
   \<and> getLastCheckTimestamp \<lparr>KEYWORDS_KEY = Some (StringArray [''rust'', ''zig'']),
                      LAST_CHECK_KEY = Some ''1700000900''\<rparr> 0 = Num 1700000900"
proof -
  let ?kv = "\<lparr>KEYWORDS_KEY = Some (StringArray [''rust'', ''zig'']), LAST_CHECK_KEY = None\<rparr>"
  let ?env = "\<lparr>HN_KV = ?kv, NTFY_TOPIC = ''alerts'', AI = (\<lambda>q t. AiResolves None)\<rparr>"
  let ?p = "\<lparr>fetchSearch = (\<lambda>q t. if q = ''rust'' then Resolves 503 None else Resolves 200 (Some [])),
      fetchNtfy = (\<lambda>r. False), dateNowDefault = 1700000900100, dateNow = 1700000900123\<rparr>"
  have ts: "toString 1700000900 = ''1700000900''"
    by (simp add: toString_def natToString.simps digitChar_def)
  have ks: "getKeywords ?kv = [\<lparr>keyword = ''rust'', kcontext = None\<rparr>, \<lparr>keyword = ''zig'', kcontext = None\<rparr>]"
    by (simp add: getKeywords_def)
  have lc: "getLastCheckTimestamp (HN_KV ?env) (dateNowDefault ?p) = Num 1700000000"
    by (simp add: getLastCheckTimestamp_def)
  have valid: "validTimeValue (getLastCheckTimestamp (HN_KV ?env) (dateNowDefault ?p))"
    unfolding lc by (simp add: validTimeValue_def)
  have s1: "searchHN ?p ''rust'' (Num 1700000000) = Inl (HNApiError 503)"
    by (simp add: searchHN_def)
  have s2: "searchHN ?p ''zig'' (Num 1700000000) = Inr []"
    by (simp add: searchHN_def)
  have scan: "scanKeywords ?env ?p (getLastCheckTimestamp (HN_KV ?env) (dateNowDefault ?p))
                (getKeywords (HN_KV ?env)) initialScan = initialScan"
    unfolding lc by (simp add: ks s1 s2)
  have now: "dateNow ?p div 1000 = 1700000900" by simp
  have h2: "getKeywords (HN_KV ?env) \<noteq> []" by (simp add: ks)
  have h3: "NTFY_TOPIC ?env \<noteq> []" by simp
  have h1: "handleScheduled ?env ?p
      = (Inr (Done 0 0 0),
         \<lparr>KEYWORDS_KEY = Some (StringArray [''rust'', ''zig'']), LAST_CHECK_KEY = Some ''1700000900''\<rparr>,
         [])"
    by (subst handleScheduled_unfold[OF h2 h3 valid scan[symmetric]])
       (simp add: initialScan_def setLastCheckTimestamp_def ts)
  show ?thesis
    using h1 h2 watermark_is_cycle_time [OF h1 h2 h3, of 0] ts by simp
qed

lemma matches_ids:
  "map (\<lambda>m. objectID (hit m)) (map toMatch cs) = map (\<lambda>c. objectID (snd c)) cs"
  by (simp add: toMatch_def)

lemma distinct_match_ids:
  "distinct (map (\<lambda>m. objectID (hit m)) (matches (scanKeywords env p t ks initialScan)))"
  unfolding matches_scanKeywords matches_ids
  by (rule distinct_map_filter) (rule firstSightings_distinct)

lemma match_origin:
  assumes "m \<in> set (matches (scanKeywords env p t ks initialScan))"
  shows "\<exists>c. c \<in> set (firstSightings {} (candidates p t ks)) \<and> \<not> scoredBelow env c \<and> m = toMatch c"
proof -
  from assms have "m \<in> toMatch ` set (filter (\<lambda>c. \<not> scoredBelow env c)
                                      (firstSightings {} (candidates p t ks)))"
    unfolding matches_scanKeywords by simp
  then obtain c where "c \<in> set (filter (\<lambda>c. \<not> scoredBelow env c) (firstSightings {} (candidates p t ks)))"
    and m: "m = toMatch c"
    by (rule imageE)
  then have "c \<in> set (firstSightings {} (candidates p t ks)) \<and> \<not> scoredBelow env c \<and> m = toMatch c"
    by simp
  then show ?thesis by (rule exI)
qed

lemma scanKeywords_filter_succeeding:
  "scanKeywords env p t (filter (searchSucceeds p t) ks) s = scanKeywords env p t ks s"
proof (induction ks arbitrary: s)
  case Nil
  then show ?case by simp
next
  case (Cons k ks)
  show ?case
  proof (cases "searchHN p (keyword k) t")
    case (Inl e)
    then show ?thesis using Cons.IH by (simp add: searchSucceeds_def)
  next
    case (Inr hits)
    then show ?thesis using Cons.IH by (simp add: searchSucceeds_def)
  qed
qed

text \<open>
  C2. In the batch of a cycle no two matches have the same hit id. Each match carries the
  keyword of the first entry of the keyword list whose search returned its id, and its
  hit is the first hit with that id in what that search returned.
\<close>

theorem first_keyword_wins:
  "distinct (map (\<lambda>m. objectID (hit m)) (matches (scanKeywords env p t ks initialScan)))
   \<and> (\<forall>m \<in> set (matches (scanKeywords env p t ks initialScan)).
        \<exists>k hits. find (returnsId p t (objectID (hit m))) ks = Some k
          \<and> mkeyword m = keyword k
          \<and> searchHN p (keyword k) t = Inr hits
          \<and> find (\<lambda>h. objectID h = objectID (hit m)) hits = Some (hit m))"
proof (intro conjI ballI)
  show "distinct (map (\<lambda>m. objectID (hit m)) (matches (scanKeywords env p t ks initialScan)))"
    by (rule distinct_match_ids)
next
  fix m
  assume "m \<in> set (matches (scanKeywords env p t ks initialScan))"
  from match_origin[OF this] obtain c where c: "c \<in> set (firstSightings {} (candidates p t ks))"
    and m: "m = toMatch c"
    by blast
  obtain k h where kh: "c = (k, h)" by (cases c)
  have "find (\<lambda>d. objectID (snd d) = objectID h) (candidates p t ks) = Some (k, h)"
    using firstSightings_find[OF c] kh by simp
  from find_candidates[OF this] obtain hits where
    "find (returnsId p t (objectID h)) ks = Some k" "searchHN p (keyword k) t = Inr hits"
    "find (\<lambda>h'. objectID h' = objectID h) hits = Some h"
    by blast
  then show "\<exists>k hits. find (returnsId p t (objectID (hit m))) ks = Some k
          \<and> mkeyword m = keyword k
          \<and> searchHN p (keyword k) t = Inr hits
          \<and> find (\<lambda>h. objectID h = objectID (hit m)) hits = Some (hit m)"
    unfolding m kh by (auto simp: toMatch_def)
qed

text \<open>
  C4. Take a hit that the loops visit for a keyword entry and do not skip as already seen.
  When the entry has a context that is not empty and \<^verbatim>\<open>checkRelevance\<close> returns a score,
  the hit is in the batch under that keyword exactly when the score is at least the
  threshold, which is one half; a score below it makes the hit one of those that are
  counted as filtered, and \<^verbatim>\<open>filteredCount\<close> is their number. A hit whose content is empty
  or white space has the score 0 without a call of the scorer. The loops return in every
  case.
\<close>

theorem scored_hit_matches_iff_threshold:
  assumes "(k, h) \<in> set (firstSightings {} (candidates p t ks))"
    and "kcontext k = Some ctx" and "ctx \<noteq> []"
    and "checkRelevance env ctx h = Inr score"
  shows "(\<lparr>mkeyword = keyword k, hit = h\<rparr> \<in> set (matches (scanKeywords env p t ks initialScan))
            \<longleftrightarrow> 1 / 2 \<le> score)
       \<and> RELEVANCE_THRESHOLD = 1 / 2
       \<and> (score < 1 / 2 \<longleftrightarrow> scoredBelow env (k, h))
       \<and> filteredCount (scanKeywords env p t ks initialScan)
           = length (filter (scoredBelow env) (firstSightings {} (candidates p t ks)))
       \<and> (trim (relevanceContent h) = [] \<longrightarrow> score = 0)"
proof -
  have below: "scoredBelow env (k, h) \<longleftrightarrow> score < 1 / 2"
    using assms(2-4) by (simp add: scoredBelow_def RELEVANCE_THRESHOLD_def)
  have "toMatch (k, h) \<in> set (matches (scanKeywords env p t ks initialScan))
          \<longleftrightarrow> \<not> scoredBelow env (k, h)"
    using assms(1) by (rule toMatch_in_matches)
  then have "\<lparr>mkeyword = keyword k, hit = h\<rparr> \<in> set (matches (scanKeywords env p t ks initialScan))
            \<longleftrightarrow> 1 / 2 \<le> score"
    unfolding below by (simp add: toMatch_def not_less)
  moreover have "trim (relevanceContent h) = [] \<longrightarrow> score = 0"
    using assms(4) by (auto simp: checkRelevance_def Let_def)
  ultimately show ?thesis
    using below by (simp add: RELEVANCE_THRESHOLD_def filteredCount_scanKeywords)
qed

text \<open>
  C5. Take a hit that the loops visit for a keyword entry and do not skip as already seen.
  When the entry has a context that is not empty and the scorer rejects for that context
  and the content of the hit, \<^verbatim>\<open>checkRelevance\<close> throws, the hit is in the batch under that
  keyword all the same, and it is not counted as filtered. No cycle ends with the error
  of the scorer.
\<close>

theorem scorer_failure_includes_hit:
  assumes "(k, h) \<in> set (firstSightings {} (candidates p t ks))"
    and "kcontext k = Some ctx" and "ctx \<noteq> []"
    and "trim (relevanceContent h) \<noteq> []"
    and "AI env ctx (relevanceContent h) = AiRejects"
  shows "checkRelevance env ctx h = Inl ScorerFailed
       \<and> \<lparr>mkeyword = keyword k, hit = h\<rparr> \<in> set (matches (scanKeywords env p t ks initialScan))
       \<and> \<not> scoredBelow env (k, h)
       \<and> fst (handleScheduled env' p') \<noteq> Inl ScorerFailed"
proof -
  have thrown: "checkRelevance env ctx h = Inl ScorerFailed"
    using assms(4,5) by (simp add: checkRelevance_def Let_def)
  then have nb: "\<not> scoredBelow env (k, h)"
    using assms(2) by (simp add: scoredBelow_def)
  have "toMatch (k, h) \<in> set (matches (scanKeywords env p t ks initialScan))
          \<longleftrightarrow> \<not> scoredBelow env (k, h)"
    using assms(1) by (rule toMatch_in_matches)
  with nb have "\<lparr>mkeyword = keyword k, hit = h\<rparr> \<in> set (matches (scanKeywords env p t ks initialScan))"
    by (simp add: toMatch_def)
  moreover have "fst (handleScheduled env' p') \<noteq> Inl ScorerFailed"
  proof
    assume a: "fst (handleScheduled env' p') = Inl ScorerFailed"
    obtain r kv' posted where r: "handleScheduled env' p' = (r, kv', posted)"
      by (cases "handleScheduled env' p'") auto
    with a have "handleScheduled env' p' = (Inl ScorerFailed, kv', posted)" by simp
    from handleScheduled_throws[OF this] show False by simp
  qed
  ultimately show ?thesis using thrown nb by simp
qed

subsection \<open>The sample cycle\<close>

lemma sample_searches:
  "searchHN samplePlatform ''rust'' t = Inr [sampleStory, sampleComment]"
  "searchHN samplePlatform ''zig'' t = Inr [sampleComment]"
  by (simp_all add: searchHN_def)

lemma sample_candidates:
  "candidates samplePlatform t sampleKeywords
     = [(\<lparr>keyword = ''rust'', kcontext = Some ''systems programming''\<rparr>, sampleStory),
        (\<lparr>keyword = ''rust'', kcontext = Some ''systems programming''\<rparr>, sampleComment),
        (\<lparr>keyword = ''zig'', kcontext = None\<rparr>, sampleComment)]"
  by (simp add: sample_searches)

lemma sample_firstSightings:
  "firstSightings {} (candidates samplePlatform t sampleKeywords)
     = [(\<lparr>keyword = ''rust'', kcontext = Some ''systems programming''\<rparr>, sampleStory),
        (\<lparr>keyword = ''rust'', kcontext = Some ''systems programming''\<rparr>, sampleComment)]"
  unfolding sample_candidates by simp

lemma sample_contents:
  "relevanceContent sampleStory = ''Rust 2.0 released''"
  "relevanceContent sampleComment = ''Zig vs Rust I like  Zig  more''"
  by (simp_all add: relevanceContent_def substring0_def)

lemma sample_trims:
  "trim ''Rust 2.0 released'' = ''Rust 2.0 released''"
  "trim ''Zig vs Rust I like  Zig  more'' = ''Zig vs Rust I like  Zig  more''"
  by (simp_all add: trim_def isWhiteSpace_def)

lemma sample_scores:
  "checkRelevance sampleEnv ''systems programming'' sampleStory = Inr (7 / 10)"
  "checkRelevance sampleEnv ''systems programming'' sampleComment = Inr (3 / 10)"
  unfolding checkRelevance_def sample_contents Let_def by (simp_all add: sample_trims)

lemma sample_scan:
  "scanKeywords sampleEnv samplePlatform t sampleKeywords initialScan
     = \<lparr>seenIds = {''101'', ''102''},
        matches = [\<lparr>mkeyword = ''rust'', hit = sampleStory\<rparr>],
        filteredCount = 1\<rparr>"
  by (simp add: sample_searches initialScan_def processHit_def truthy_def sample_scores
        RELEVANCE_THRESHOLD_def Let_def insert_commute)


lemma sample_last_check:
  "getLastCheckTimestamp sampleKV d = Num 1700000000"
proof -
  have "toString 1700000000 = ''1700000000''"
    by (simp add: toString_def natToString.simps digitChar_def)
  then have "parseInt ''1700000000'' = Num 1700000000"
    using parseInt_toString[of 1700000000] by simp
  then show ?thesis by (simp add: getLastCheckTimestamp_def)
qed

lemma sample_now: "toString (1700000900123 div 1000) = ''1700000900''"
  by (simp add: toString_def natToString.simps digitChar_def)

theorem first_keyword_wins_witness:
  "matches (scanKeywords sampleEnvAllRelevant samplePlatform
             (Num 1700000000) sampleKeywords initialScan)
     = [\<lparr>mkeyword = ''rust'', hit = sampleStory\<rparr>, \<lparr>mkeyword = ''rust'', hit = sampleComment\<rparr>]
   \<and> returnsId samplePlatform (Num 1700000000) ''102''
        \<lparr>keyword = ''rust'', kcontext = Some ''systems programming''\<rparr>
   \<and> returnsId samplePlatform (Num 1700000000) ''102'' \<lparr>keyword = ''zig'', kcontext = None\<rparr>
   \<and> distinct (map (\<lambda>m. objectID (hit m))
        (matches (scanKeywords sampleEnvAllRelevant samplePlatform
             (Num 1700000000) sampleKeywords initialScan)))
   \<and> (\<exists>k hits. find (returnsId samplePlatform (Num 1700000000) ''102'') sampleKeywords = Some k
         \<and> ''rust'' = keyword k
         \<and> searchHN samplePlatform (keyword k) (Num 1700000000) = Inr hits
         \<and> find (\<lambda>h. objectID h = ''102'') hits = Some sampleComment)"
proof -
  let ?env = sampleEnvAllRelevant
  let ?S = "scanKeywords ?env samplePlatform (Num 1700000000) sampleKeywords initialScan"
  have scores: "checkRelevance ?env ''systems programming'' sampleStory = Inr (9 / 10)"
    "checkRelevance ?env ''systems programming'' sampleComment = Inr (9 / 10)"
    unfolding checkRelevance_def sample_contents Let_def by (simp_all add: sample_trims)
  have ms: "matches ?S
     = [\<lparr>mkeyword = ''rust'', hit = sampleStory\<rparr>, \<lparr>mkeyword = ''rust'', hit = sampleComment\<rparr>]"
    by (simp add: sample_searches initialScan_def processHit_def truthy_def scores
          RELEVANCE_THRESHOLD_def Let_def)
  have r: "returnsId samplePlatform (Num 1700000000) ''102''
        \<lparr>keyword = ''rust'', kcontext = Some ''systems programming''\<rparr>"
    "returnsId samplePlatform (Num 1700000000) ''102'' \<lparr>keyword = ''zig'', kcontext = None\<rparr>"
    by (simp_all add: returnsId_def sample_searches)
  have m: "\<lparr>mkeyword = ''rust'', hit = sampleComment\<rparr> \<in> set (matches ?S)"
    unfolding ms by simp
  note inst = first_keyword_wins [of ?env samplePlatform "Num 1700000000" sampleKeywords]
  from inst have d: "distinct (map (\<lambda>m. objectID (hit m)) (matches ?S))" by (rule conjunct1)
  from inst have "\<forall>m \<in> set (matches ?S).
        \<exists>k hits. find (returnsId samplePlatform (Num 1700000000) (objectID (hit m))) sampleKeywords = Some k
          \<and> mkeyword m = keyword k
          \<and> searchHN samplePlatform (keyword k) (Num 1700000000) = Inr hits
          \<and> find (\<lambda>h. objectID h = objectID (hit m)) hits = Some (hit m)"
    by (rule conjunct2)
  from bspec[OF this m] have e: "\<exists>k hits. find (returnsId samplePlatform (Num 1700000000) ''102'') sampleKeywords = Some k
         \<and> ''rust'' = keyword k
         \<and> searchHN samplePlatform (keyword k) (Num 1700000000) = Inr hits
         \<and> find (\<lambda>h. objectID h = ''102'') hits = Some sampleComment"
    by simp
  show ?thesis using ms r d e by (intro conjI)
qed

theorem scored_hit_matches_iff_threshold_witness:
  "(\<lparr>keyword = ''rust'', kcontext = Some ''systems programming''\<rparr>, sampleStory)
      \<in> set (firstSightings {} (candidates samplePlatform (Num 1700000000) sampleKeywords))
   \<and> checkRelevance sampleEnv ''systems programming'' sampleStory = Inr (7 / 10)
   \<and> \<lparr>mkeyword = ''rust'', hit = sampleStory\<rparr>
        \<in> set (matches (scanKeywords sampleEnv samplePlatform (Num 1700000000) sampleKeywords initialScan))
   \<and> (\<lparr>keyword = ''rust'', kcontext = Some ''systems programming''\<rparr>, sampleComment)
      \<in> set (firstSightings {} (candidates samplePlatform (Num 1700000000) sampleKeywords))
   \<and> checkRelevance sampleEnv ''systems programming'' sampleComment = Inr (3 / 10)
   \<and> \<lparr>mkeyword = ''rust'', hit = sampleComment\<rparr>
        \<notin> set (matches (scanKeywords sampleEnv samplePlatform (Num 1700000000) sampleKeywords initialScan))
   \<and> filteredCount (scanKeywords sampleEnv samplePlatform (Num 1700000000) sampleKeywords initialScan) = 1"
proof -
  let ?rust = "\<lparr>keyword = ''rust'', kcontext = Some ''systems programming''\<rparr>"
  let ?S = "scanKeywords sampleEnv samplePlatform (Num 1700000000) sampleKeywords initialScan"
  have a1: "(?rust, sampleStory)
      \<in> set (firstSightings {} (candidates samplePlatform (Num 1700000000) sampleKeywords))"
    and a2: "(?rust, sampleComment)
      \<in> set (firstSightings {} (candidates samplePlatform (Num 1700000000) sampleKeywords))"
    unfolding sample_firstSightings by simp_all
  have c: "kcontext ?rust = Some ''systems programming''" and ne: "''systems programming'' \<noteq> []"
    by simp_all
  note t1 = scored_hit_matches_iff_threshold [OF a1 c ne sample_scores(1)]
  note t2 = scored_hit_matches_iff_threshold [OF a2 c ne sample_scores(2)]
  from t1 have in1: "\<lparr>mkeyword = ''rust'', hit = sampleStory\<rparr> \<in> set (matches ?S)" by simp
  from t2 have out2: "\<lparr>mkeyword = ''rust'', hit = sampleComment\<rparr> \<notin> set (matches ?S)" by simp
  from t2 have "filteredCount ?S
      = length (filter (scoredBelow sampleEnv)
          (firstSightings {} (candidates samplePlatform (Num 1700000000) sampleKeywords)))"
    by simp
  then have fc: "filteredCount ?S = 1"
    unfolding sample_firstSightings
    by (simp add: scoredBelow_def sample_scores RELEVANCE_THRESHOLD_def)
  show ?thesis using a1 a2 sample_scores in1 out2 fc by (intro conjI)
qed

theorem scorer_failure_includes_hit_witness:
  "(\<lparr>keyword = ''rust'', kcontext = Some ''systems programming''\<rparr>, sampleStory)
      \<in> set (firstSightings {} (candidates samplePlatform (Num 1700000000) sampleKeywords))
   \<and> trim (relevanceContent sampleStory) \<noteq> []
   \<and> AI sampleEnvScorerRejects ''systems programming'' (relevanceContent sampleStory)
       = AiRejects
   \<and> checkRelevance sampleEnvScorerRejects ''systems programming'' sampleStory
       = Inl ScorerFailed
   \<and> \<lparr>mkeyword = ''rust'', hit = sampleStory\<rparr>
        \<in> set (matches (scanKeywords sampleEnvScorerRejects samplePlatform
                          (Num 1700000000) sampleKeywords initialScan))"
proof -
  let ?rust = "\<lparr>keyword = ''rust'', kcontext = Some ''systems programming''\<rparr>"
  let ?env = sampleEnvScorerRejects
  have a1: "(?rust, sampleStory)
      \<in> set (firstSightings {} (candidates samplePlatform (Num 1700000000) sampleKeywords))"
    unfolding sample_firstSightings by simp
  have c: "kcontext ?rust = Some ''systems programming''" and ne: "''systems programming'' \<noteq> []"
    by simp_all
  have t: "trim (relevanceContent sampleStory) \<noteq> []"
    unfolding sample_contents sample_trims by simp
  have r: "AI ?env ''systems programming'' (relevanceContent sampleStory) = AiRejects" by simp
  note inst = scorer_failure_includes_hit [OF a1 c ne t r, of sampleEnv samplePlatform]
  from inst have "checkRelevance ?env ''systems programming'' sampleStory = Inl ScorerFailed"
    and "\<lparr>mkeyword = ''rust'', hit = sampleStory\<rparr>
        \<in> set (matches (scanKeywords ?env samplePlatform (Num 1700000000) sampleKeywords initialScan))"
    by simp_all
  then show ?thesis using a1 t r by (intro conjI)
qed

subsection \<open>The summary line\<close>

lemma set_keywordsInOrder [simp]: "set (keywordsInOrder xs) = set xs"
  by (induction xs) auto

lemma filter_keywordsInOrder:
  "filter P (keywordsInOrder xs) = keywordsInOrder (filter P xs)"
proof (induction xs)
  case Nil
  then show ?case by simp
next
  case (Cons x xs)
  show ?case
  proof (cases "P x")
    case True
    have "filter P (filter (\<lambda>k'. k' \<noteq> x) (keywordsInOrder xs))
            = filter (\<lambda>k'. k' \<noteq> x) (filter P (keywordsInOrder xs))"
      by (simp add: conj_commute)
    with True Cons.IH show ?thesis by simp
  next
    case False
    then have "x \<notin> set (keywordsInOrder (filter P xs))" by simp
    then have "filter (\<lambda>k'. k' \<noteq> x) (keywordsInOrder (filter P xs)) = keywordsInOrder (filter P xs)"
      by (simp add: filter_id_conv) blast
    moreover have "filter P (filter (\<lambda>k'. k' \<noteq> x) (keywordsInOrder xs))
            = filter (\<lambda>k'. k' \<noteq> x) (filter P (keywordsInOrder xs))"
      by (simp add: conj_commute)
    ultimately show ?thesis using False Cons.IH by simp
  qed
qed

lemma mapGet_absent: "k \<notin> fst ` set m \<Longrightarrow> mapGet m k = None"
  by (induction m) auto

lemma mapSet_absent: "k \<notin> fst ` set m \<Longrightarrow> mapSet m k v = m @ [(k, v)]"
  by (induction m) auto

lemma mapSet_present:
  "k \<in> fst ` set m \<Longrightarrow> distinct (map fst m) \<Longrightarrow>
     mapSet m k ((case mapGet m k of None \<Rightarrow> 0 | Some n \<Rightarrow> n) + 1)
       = map (\<lambda>e. if fst e = k then (k, snd e + 1) else e) m"
proof (induction m)
  case Nil
  then show ?case by simp
next
  case (Cons e m)
  obtain k' v' where e: "e = (k', v')" by (cases e)
  show ?case
  proof (cases "k' = k")
    case True
    then have "k \<notin> fst ` set m" using Cons.prems(2) e by auto
    then have "map (\<lambda>e. if fst e = k then (k, snd e + 1) else e) m = m"
      by (intro map_idI) auto
    with True e show ?thesis by simp
  next
    case False
    with Cons e show ?thesis by auto
  qed
qed

lemma countKeywords_general:
  "distinct (map fst acc) \<Longrightarrow>
   countKeywords acc ms =
     map (\<lambda>e. (fst e, snd e + length (filter (\<lambda>m. mkeyword m = fst e) ms))) acc
     @ map (\<lambda>k. (k, length (filter (\<lambda>m. mkeyword m = k) ms)))
         (keywordsInOrder (filter (\<lambda>k. k \<notin> fst ` set acc) (map mkeyword ms)))"
proof (induction ms arbitrary: acc)
  case Nil
  then show ?case by simp
next
  case (Cons m ms)
  let ?k = "mkeyword m"
  let ?cnt = "\<lambda>ms k. length (filter (\<lambda>m. mkeyword m = k) ms)"
  show ?case
  proof (cases "?k \<in> fst ` set acc")
    case True
    let ?acc' = "map (\<lambda>e. if fst e = ?k then (?k, snd e + 1) else e) acc"
    have step: "countKeywords acc (m # ms) = countKeywords ?acc' ms"
      using mapSet_present[OF True Cons.prems] by simp
    have keys: "map fst ?acc' = map fst acc" by (induction acc) auto
    then have keyset: "fst ` set ?acc' = fst ` set acc" by (metis set_map)
    have d: "distinct (map fst ?acc')" unfolding keys by (rule Cons.prems)
    have a: "map (\<lambda>e. (fst e, snd e + ?cnt ms (fst e))) ?acc'
               = map (\<lambda>e. (fst e, snd e + ?cnt (m # ms) (fst e))) acc"
      by (induction acc) auto
    have b: "map (\<lambda>k. (k, ?cnt ms k)) (keywordsInOrder (filter (\<lambda>k. k \<notin> fst ` set acc) (map mkeyword ms)))
               = map (\<lambda>k. (k, ?cnt (m # ms) k))
                   (keywordsInOrder (filter (\<lambda>k. k \<notin> fst ` set acc) (map mkeyword ms)))"
    proof (intro map_cong refl)
      fix k
      assume "k \<in> set (keywordsInOrder (filter (\<lambda>k. k \<notin> fst ` set acc) (map mkeyword ms)))"
      then have "k \<notin> fst ` set acc" by simp
      with True have "?k \<noteq> k" by blast
      then show "(k, ?cnt ms k) = (k, ?cnt (m # ms) k)" by simp
    qed
    show ?thesis
      unfolding step Cons.IH[OF d] keyset a b using True by simp
  next
    case False
    let ?acc' = "acc @ [(?k, 1)]"
    have step: "countKeywords acc (m # ms) = countKeywords ?acc' ms"
      using mapGet_absent[OF False] mapSet_absent[OF False] by simp
    have d: "distinct (map fst ?acc')" using False Cons.prems by simp
    have f: "filter (\<lambda>k. k \<notin> fst ` set ?acc') (map mkeyword ms)
               = filter (\<lambda>k'. k' \<noteq> ?k) (filter (\<lambda>k. k \<notin> fst ` set acc) (map mkeyword ms))"
      by (auto intro: filter_cong)
    have a: "map (\<lambda>e. (fst e, snd e + ?cnt ms (fst e))) acc
               = map (\<lambda>e. (fst e, snd e + ?cnt (m # ms) (fst e))) acc"
      using False by (intro map_cong refl) auto
    have b: "map (\<lambda>k. (k, ?cnt ms k))
               (filter (\<lambda>k'. k' \<noteq> ?k) (keywordsInOrder (filter (\<lambda>k. k \<notin> fst ` set acc) (map mkeyword ms))))
           = map (\<lambda>k. (k, ?cnt (m # ms) k))
               (filter (\<lambda>k'. k' \<noteq> ?k) (keywordsInOrder (filter (\<lambda>k. k \<notin> fst ` set acc) (map mkeyword ms))))"
      by (intro map_cong refl) auto
    let ?X = "filter (\<lambda>k. k \<notin> fst ` set acc) (map mkeyword ms)"
    have "countKeywords acc (m # ms)
            = map (\<lambda>e. (fst e, snd e + ?cnt ms (fst e))) ?acc'
              @ map (\<lambda>k. (k, ?cnt ms k))
                  (keywordsInOrder (filter (\<lambda>k. k \<notin> fst ` set ?acc') (map mkeyword ms)))"
      unfolding step by (rule Cons.IH[OF d])
    also have "\<dots> = map (\<lambda>e. (fst e, snd e + ?cnt ms (fst e))) acc
              @ (?k, 1 + ?cnt ms ?k)
                # map (\<lambda>k. (k, ?cnt ms k)) (filter (\<lambda>k'. k' \<noteq> ?k) (keywordsInOrder ?X))"
      unfolding f filter_keywordsInOrder by simp
    also have "\<dots> = map (\<lambda>e. (fst e, snd e + ?cnt (m # ms) (fst e))) acc
              @ (?k, ?cnt (m # ms) ?k)
                # map (\<lambda>k. (k, ?cnt (m # ms) k)) (filter (\<lambda>k'. k' \<noteq> ?k) (keywordsInOrder ?X))"
      unfolding a b by simp
    also have "\<dots> = map (\<lambda>e. (fst e, snd e + ?cnt (m # ms) (fst e))) acc
              @ map (\<lambda>k. (k, ?cnt (m # ms) k)) (keywordsInOrder (?k # ?X))"
      by simp
    also have "?k # ?X = filter (\<lambda>k. k \<notin> fst ` set acc) (map mkeyword (m # ms))"
      using False by simp
    finally show ?thesis .
  qed
qed

lemma countKeywords_tally: "countKeywords [] ms = keywordTally ms"
  using countKeywords_general[of "[]" ms] by (simp add: keywordTally_def)

subsection \<open>The notification of a batch\<close>

lemma formatBatchNotification_one:
  "formatBatchNotification [m]
     = (''['' @ mkeyword m @ ''] '' @ orElse (title (hit m)) (orElse (story_title (hit m)) ''Comment''),
        (case comment_text (hit m) of
           None \<Rightarrow> ''by '' @ author (hit m)
         | Some c \<Rightarrow> if c = [] then ''by '' @ author (hit m) else take 200 (stripTags c) @ ''...''))"
  by (simp add: formatBatchNotification_def itemTitle_def formatHitBody_def substring0_def
           split: option.split)

lemma formatBatchNotification_many:
  "ms \<noteq> [] \<Longrightarrow>
   formatBatchNotification (m # ms)
     = (''HN Alert: '' @ toString (int (length (m # ms))) @ '' matches'',
        join newline
          ([join '', '' (map (\<lambda>e. fst e @ ''('' @ toString (int (snd e)) @ '')'') (keywordTally (m # ms))), []]
           @ map (\<lambda>x. bullet @ '' ['' @ mkeyword x @ ''] ''
                       @ take 60 (orElse (title (hit x)) (orElse (story_title (hit x)) ''Comment'')))
               (take 10 (m # ms))
           @ (if 10 < length (m # ms)
              then [''... and '' @ toString (int (length (m # ms)) - 10) @ '' more'']
              else [])))"
proof -
  assume "ms \<noteq> []"
  then have len: "length (m # ms) \<noteq> 0" "length (m # ms) \<noteq> 1" by simp_all
  have sp: "summaryPart = (\<lambda>e. fst e @ ''('' @ toString (int (snd e)) @ '')'')"
    by (rule ext) (simp add: summaryPart_def)
  have bl: "bulletLine = (\<lambda>x. bullet @ '' ['' @ mkeyword x @ ''] ''
                       @ take 60 (orElse (title (hit x)) (orElse (story_title (hit x)) ''Comment'')))"
    by (rule ext) (simp add: bulletLine_def itemTitle_def substring0_def)
  show ?thesis
    unfolding formatBatchNotification_def Let_def countKeywords_tally sp bl
    using len by (simp only: if_False)
qed

text \<open>
  C8. When the loops of a cycle end with a batch \<open>m # ms\<close>, the cycle posts one request
  to the topic. For a batch of one, the title is the keyword in brackets and the title of
  the item, else the title of its story, else \<^verbatim>\<open>Comment\<close>; the body is the comment without
  its tags, cut to 200 characters, with three dots, or \<^verbatim>\<open>by\<close> and the author when there is
  no comment text. For a larger batch of \<open>N\<close>, the title is \<^verbatim>\<open>HN Alert: N matches\<close>; the body
  is the line of \<^verbatim>\<open>keyword(count)\<close> joined by commas, an empty line, a bullet line with the
  keyword in brackets and the title cut to 60 characters for each of the first 10 matches,
  and \<^verbatim>\<open>... and N-10 more\<close> when \<open>N\<close> is above 10. In both cases the link is made of the
  id of the hit of \<open>m\<close>, the first match.
\<close>

theorem batch_notification_format:
  assumes "getKeywords (HN_KV env) \<noteq> []" and "NTFY_TOPIC env \<noteq> []"
    and "validTimeValue (getLastCheckTimestamp (HN_KV env) (dateNowDefault p))"
    and "matches (scanKeywords env p (getLastCheckTimestamp (HN_KV env) (dateNowDefault p))
                    (getKeywords (HN_KV env)) initialScan) = m # ms"
    and "\<forall>r. fetchNtfy p r"
  shows "snd (snd (handleScheduled env p)) =
     [\<lparr>requestUrl = ''https://ntfy.sh/'' @ NTFY_TOPIC env,
       headerTitle =
         (if ms = []
          then ''['' @ mkeyword m @ ''] ''
               @ orElse (title (hit m)) (orElse (story_title (hit m)) ''Comment'')
          else ''HN Alert: '' @ toString (int (length (m # ms))) @ '' matches''),
       headerClick = Some (''https://news.ycombinator.com/item?id='' @ objectID (hit m)),
       headerActions = Some (''view, Open, https://news.ycombinator.com/item?id='' @ objectID (hit m)),
       requestBody =
         (if ms = []
          then (case comment_text (hit m) of
                  None \<Rightarrow> ''by '' @ author (hit m)
                | Some c \<Rightarrow> if c = [] then ''by '' @ author (hit m)
                            else take 200 (stripTags c) @ ''...'')
          else join newline
                 ([join '', '' (map (\<lambda>e. fst e @ ''('' @ toString (int (snd e)) @ '')'')
                                  (keywordTally (m # ms))), []]
                  @ map (\<lambda>x. bullet @ '' ['' @ mkeyword x @ ''] ''
                              @ take 60 (orElse (title (hit x)) (orElse (story_title (hit x)) ''Comment'')))
                      (take 10 (m # ms))
                  @ (if 10 < length (m # ms)
                     then [''... and '' @ toString (int (length (m # ms)) - 10) @ '' more'']
                     else [])))\<rparr>]"
proof -
  define s where "s = scanKeywords env p (getLastCheckTimestamp (HN_KV env) (dateNowDefault p))
                        (getKeywords (HN_KV env)) initialScan"
  have ms: "matches s = m # ms" unfolding s_def by (rule assms(4))
  have link: "firstHitUrl (m # ms) = ''https://news.ycombinator.com/item?id='' @ objectID (hit m)"
    by (simp add: firstHitUrl_def)
  have sent: "sendNotification p (NTFY_TOPIC env) ttl body (Some (firstHitUrl (m # ms)))
     = Inr \<lparr>requestUrl = ''https://ntfy.sh/'' @ NTFY_TOPIC env, headerTitle = ttl,
            headerClick = Some (''https://news.ycombinator.com/item?id='' @ objectID (hit m)),
            headerActions = Some (''view, Open, https://news.ycombinator.com/item?id='' @ objectID (hit m)),
            requestBody = body\<rparr>" for ttl body
    using assms(5) by (simp add: sendNotification_def link truthy_def Let_def)
  have posted: "snd (snd (handleScheduled env p))
     = [\<lparr>requestUrl = ''https://ntfy.sh/'' @ NTFY_TOPIC env,
         headerTitle = fst (formatBatchNotification (m # ms)),
         headerClick = Some (''https://news.ycombinator.com/item?id='' @ objectID (hit m)),
         headerActions = Some (''view, Open, https://news.ycombinator.com/item?id='' @ objectID (hit m)),
         requestBody = snd (formatBatchNotification (m # ms))\<rparr>]"
    unfolding handleScheduled_unfold[OF assms(1,2,3) s_def] ms sent by simp
  show ?thesis
  proof (cases "ms = []")
    case True
    then show ?thesis unfolding posted by (simp add: formatBatchNotification_one)
  next
    case False
    then show ?thesis unfolding posted formatBatchNotification_many[OF False] by simp
  qed
qed

theorem batch_notification_format_witness:
  "getKeywords (HN_KV sampleEnv) \<noteq> [] \<and> NTFY_TOPIC sampleEnv \<noteq> []
   \<and> validTimeValue (getLastCheckTimestamp (HN_KV sampleEnv) 1700000900100)
   \<and> (\<forall>r. fetchNtfy samplePlatformRustFails r)
   \<and> matches (scanKeywords sampleEnv samplePlatformRustFails (Num 1700000000) sampleKeywords initialScan)
       = [\<lparr>mkeyword = ''zig'', hit = sampleComment\<rparr>]
   \<and> snd (snd (handleScheduled sampleEnv samplePlatformRustFails))
       = [\<lparr>requestUrl = ''https://ntfy.sh/alerts'',
           headerTitle = ''[zig] Zig vs Rust'',
           headerClick = Some ''https://news.ycombinator.com/item?id=102'',
           headerActions = Some ''view, Open, https://news.ycombinator.com/item?id=102'',
           requestBody = ''I like  Zig  more...''\<rparr>]
   \<and> matches (scanKeywords sampleEnvAllRelevant samplePlatform (Num 1700000000) sampleKeywords initialScan)
       = [\<lparr>mkeyword = ''rust'', hit = sampleStory\<rparr>, \<lparr>mkeyword = ''rust'', hit = sampleComment\<rparr>]
   \<and> snd (snd (handleScheduled sampleEnvAllRelevant samplePlatform))
       = [\<lparr>requestUrl = ''https://ntfy.sh/alerts'',
           headerTitle = ''HN Alert: 2 matches'',
           headerClick = Some ''https://news.ycombinator.com/item?id=101'',
           headerActions = Some ''view, Open, https://news.ycombinator.com/item?id=101'',
           requestBody = ''rust(2)'' @ newline @ newline
                         @ bullet @ '' [rust] Rust 2.0 released'' @ newline
                         @ bullet @ '' [rust] Zig vs Rust''\<rparr>]"
proof -
  have ks: "getKeywords sampleKV = sampleKeywords" by (simp add: getKeywords_def)
  have two: "toString 2 = ''2''" by (simp add: toString_def natToString.simps digitChar_def)

  have h1: "getKeywords (HN_KV sampleEnv) \<noteq> []" by (simp add: ks)
  have h2: "NTFY_TOPIC sampleEnv \<noteq> []" by simp
  have h3: "validTimeValue (getLastCheckTimestamp (HN_KV sampleEnv) (dateNowDefault samplePlatformRustFails))"
    by (simp add: sample_last_check validTimeValue_def)
  have s: "searchHN samplePlatformRustFails ''rust'' (Num 1700000000) = Inl (HNApiError 503)"
    "searchHN samplePlatformRustFails ''zig'' (Num 1700000000) = Inr [sampleComment]"
    by (simp_all add: searchHN_def)
  have m1: "matches (scanKeywords sampleEnv samplePlatformRustFails (Num 1700000000) sampleKeywords initialScan)
       = [\<lparr>mkeyword = ''zig'', hit = sampleComment\<rparr>]"
    by (simp add: s initialScan_def processHit_def truthy_def Let_def)
  have h4: "matches (scanKeywords sampleEnv samplePlatformRustFails
                (getLastCheckTimestamp (HN_KV sampleEnv) (dateNowDefault samplePlatformRustFails))
                (getKeywords (HN_KV sampleEnv)) initialScan)
       = [\<lparr>mkeyword = ''zig'', hit = sampleComment\<rparr>]"
    by (simp only: Env.simps Platform.simps sample_last_check ks m1)
  have h5: "\<forall>r. fetchNtfy samplePlatformRustFails r" by simp
  have strip: "stripTags ''I like <i>Zig</i> more'' = ''I like  Zig  more''" by simp
  from batch_notification_format [OF h1 h2 h3 h4 h5]
  have r1: "snd (snd (handleScheduled sampleEnv samplePlatformRustFails))
       = [\<lparr>requestUrl = ''https://ntfy.sh/alerts'',
           headerTitle = ''[zig] Zig vs Rust'',
           headerClick = Some ''https://news.ycombinator.com/item?id=102'',
           headerActions = Some ''view, Open, https://news.ycombinator.com/item?id=102'',
           requestBody = ''I like  Zig  more...''\<rparr>]"
    by (simp add: orElse_def strip)

  have g1: "getKeywords (HN_KV sampleEnvAllRelevant) \<noteq> []" by (simp add: ks)
  have g2: "NTFY_TOPIC sampleEnvAllRelevant \<noteq> []" by simp
  have g3: "validTimeValue (getLastCheckTimestamp (HN_KV sampleEnvAllRelevant) (dateNowDefault samplePlatform))"
    by (simp add: sample_last_check validTimeValue_def)
  have scores: "checkRelevance sampleEnvAllRelevant ''systems programming'' sampleStory = Inr (9 / 10)"
    "checkRelevance sampleEnvAllRelevant ''systems programming'' sampleComment = Inr (9 / 10)"
    unfolding checkRelevance_def sample_contents Let_def by (simp_all add: sample_trims)
  have m2: "matches (scanKeywords sampleEnvAllRelevant samplePlatform (Num 1700000000) sampleKeywords initialScan)
       = [\<lparr>mkeyword = ''rust'', hit = sampleStory\<rparr>, \<lparr>mkeyword = ''rust'', hit = sampleComment\<rparr>]"
    by (simp add: sample_searches initialScan_def processHit_def truthy_def scores
          RELEVANCE_THRESHOLD_def Let_def)
  have g4: "matches (scanKeywords sampleEnvAllRelevant samplePlatform
                (getLastCheckTimestamp (HN_KV sampleEnvAllRelevant) (dateNowDefault samplePlatform))
                (getKeywords (HN_KV sampleEnvAllRelevant)) initialScan)
       = [\<lparr>mkeyword = ''rust'', hit = sampleStory\<rparr>, \<lparr>mkeyword = ''rust'', hit = sampleComment\<rparr>]"
    by (simp only: Env.simps Platform.simps sample_last_check ks m2)
  have g5: "\<forall>r. fetchNtfy samplePlatform r" by simp
  have tally: "keywordTally [\<lparr>mkeyword = ''rust'', hit = sampleStory\<rparr>,
                              \<lparr>mkeyword = ''rust'', hit = sampleComment\<rparr>] = [(''rust'', 2)]"
    by (simp add: keywordTally_def)
  from batch_notification_format [OF g1 g2 g3 g4 g5]
  have r2: "snd (snd (handleScheduled sampleEnvAllRelevant samplePlatform))
       = [\<lparr>requestUrl = ''https://ntfy.sh/alerts'',
           headerTitle = ''HN Alert: 2 matches'',
           headerClick = Some ''https://news.ycombinator.com/item?id=101'',
           headerActions = Some ''view, Open, https://news.ycombinator.com/item?id=101'',
           requestBody = ''rust(2)'' @ newline @ newline
                         @ bullet @ '' [rust] Rust 2.0 released'' @ newline
                         @ bullet @ '' [rust] Zig vs Rust''\<rparr>]"
    by (simp add: orElse_def tally two)
  have h3': "validTimeValue (getLastCheckTimestamp (HN_KV sampleEnv) 1700000900100)"
    using h3 by simp
  show ?thesis using h1 h2 h3' h5 m1 r1 m2 r2 by (intro conjI)
qed

text \<open>
  Twelve matches of one keyword: the title counts them, the body lists ten and says that
  two more are left out.
\<close>

lemma formatBatchNotification_twelve:
  "formatBatchNotification (replicate 12 \<lparr>mkeyword = ''zig'', hit = sampleComment\<rparr>)
     = (''HN Alert: 12 matches'',
        ''zig(12)'' @ newline @ newline
        @ concat (replicate 10 (bullet @ '' [zig] Zig vs Rust'' @ newline))
        @ ''... and 2 more'')"
proof -
  let ?m = "\<lparr>mkeyword = ''zig'', hit = sampleComment\<rparr>"
  have r: "replicate 12 ?m = ?m # replicate 11 ?m" by (simp add: eval_nat_numeral)
  have ne: "replicate 11 ?m \<noteq> []" by simp
  have twelve: "toString 12 = ''12''" and two: "toString 2 = ''2''"
    by (simp_all add: toString_def natToString.simps digitChar_def)
  have tally: "keywordTally (?m # replicate 11 ?m) = [(''zig'', 12)]"
    by (simp add: keywordTally_def eval_nat_numeral)
  have ten: "take 10 (?m # replicate 11 ?m) = replicate 10 ?m"
    by (simp add: eval_nat_numeral)
  show ?thesis
    unfolding r formatBatchNotification_many[OF ne] tally ten
    by (simp add: twelve two orElse_def eval_nat_numeral)
qed

subsection \<open>A search that throws\<close>

lemma candidates_concat:
  "candidates p t ks
     = concat (map (\<lambda>k. case searchHN p (keyword k) t of
                            Inr hits \<Rightarrow> map (Pair k) hits
                          | Inl e \<Rightarrow> []) ks)"
  by (induction ks) simp_all

lemma firstSightings_ids:
  "(\<lambda>c. objectID (snd c)) ` set (firstSightings seen cs)
     = (\<lambda>c. objectID (snd c)) ` set cs - seen"
proof (induction cs arbitrary: seen)
  case Nil
  then show ?case by simp
next
  case (Cons c cs)
  show ?case
  proof (cases "objectID (snd c) \<in> seen")
    case True
    then show ?thesis using Cons.IH[of seen] by auto
  next
    case False
    then show ?thesis using Cons.IH[of "insert (objectID (snd c)) seen"] by auto
  qed
qed

lemma sendNotification_first_hit:
  "sendNotification p topic ttl body (Some (firstHitUrl ms))
     = (if fetchNtfy p \<lparr>requestUrl = ''https://ntfy.sh/'' @ topic, headerTitle = ttl,
                         headerClick = Some (firstHitUrl ms),
                         headerActions = Some (''view, Open, '' @ firstHitUrl ms),
                         requestBody = body\<rparr>
        then Inr \<lparr>requestUrl = ''https://ntfy.sh/'' @ topic, headerTitle = ttl,
                   headerClick = Some (firstHitUrl ms),
                   headerActions = Some (''view, Open, '' @ firstHitUrl ms),
                   requestBody = body\<rparr>
        else Inl NotifyRejected)"
  by (simp add: sendNotification_def truthy_def firstHitUrl_def Let_def)

lemma handleScheduled_outcome:
  assumes "getKeywords (HN_KV env) \<noteq> []" and "NTFY_TOPIC env \<noteq> []"
    and "validTimeValue (getLastCheckTimestamp (HN_KV env) (dateNowDefault p))"
    and found: "found = candidates p (getLastCheckTimestamp (HN_KV env) (dateNowDefault p))
                          (getKeywords (HN_KV env))"
    and batch: "batch = map toMatch (filter (\<lambda>c. \<not> scoredBelow env c) (firstSightings {} found))"
    and request: "request = \<lparr>requestUrl = ''https://ntfy.sh/'' @ NTFY_TOPIC env,
                       headerTitle = fst (formatBatchNotification batch),
                       headerClick = Some (firstHitUrl batch),
                       headerActions = Some (''view, Open, '' @ firstHitUrl batch),
                       requestBody = snd (formatBatchNotification batch)\<rparr>"
  shows "handleScheduled env p =
     (if batch \<noteq> [] \<and> \<not> fetchNtfy p request then (Inl NotifyRejected, HN_KV env, [])
      else (Inr (Done (card ((\<lambda>c. objectID (snd c)) ` set found)) (length batch)
                  (length (filter (scoredBelow env) (firstSightings {} found)))),
            setLastCheckTimestamp (HN_KV env) (dateNow p div 1000),
            if batch = [] then [] else [request]))"
proof -
  define s where "s = scanKeywords env p (getLastCheckTimestamp (HN_KV env) (dateNowDefault p))
                        (getKeywords (HN_KV env)) initialScan"
  have m: "matches s = batch" unfolding s_def batch found by (rule matches_scanKeywords)
  have i: "seenIds s = (\<lambda>c. objectID (snd c)) ` set found"
    unfolding s_def found by (rule seenIds_scanKeywords)
  have f: "filteredCount s = length (filter (scoredBelow env) (firstSightings {} found))"
    unfolding s_def found by (rule filteredCount_scanKeywords)
  show ?thesis
    unfolding handleScheduled_unfold[OF assms(1,2,3) s_def] m i f sendNotification_first_hit
      request[symmetric]
    by simp
qed

text \<open>
  C6, as amended. Take a cycle that reaches its searches: the keyword list is not empty,
  the topic is configured and the stored time of the last check is a valid time. The hits
  the loops visit are those of every keyword entry whose search succeeds, entry after entry
  in list order and hit after hit in the order returned; an entry whose search throws adds
  nothing and the entries after it are visited all the same. The batch is made of the
  visited hits that are first sightings of their id and are not scored below the
  threshold, so every hit that a successful search returned has its id among the seen ids
  and has a match with its id in the batch, unless the first sighting of that id was
  scored below the threshold. The cycle then ends in one of two ways, whichever searches
  threw: when the batch is not empty and the post to ntfy.sh is rejected, it throws that
  rejection and writes nothing; otherwise it runs to its end, posts the batch if there is
  one, and stores the time of the cycle as the time of the last check.
\<close>

theorem search_failure_is_isolated:
  assumes "getKeywords (HN_KV env) \<noteq> []" and "NTFY_TOPIC env \<noteq> []"
    and "validTimeValue (getLastCheckTimestamp (HN_KV env) (dateNowDefault p))"
  shows
    "let ks = getKeywords (HN_KV env);
         t = getLastCheckTimestamp (HN_KV env) (dateNowDefault p);
         found = concat (map (\<lambda>k. case searchHN p (keyword k) t of
                                     Inr hits \<Rightarrow> map (Pair k) hits
                                   | Inl e \<Rightarrow> []) ks);
         batch = map toMatch (filter (\<lambda>c. \<not> scoredBelow env c) (firstSightings {} found));
         request = \<lparr>requestUrl = ''https://ntfy.sh/'' @ NTFY_TOPIC env,
                    headerTitle = fst (formatBatchNotification batch),
                    headerClick = Some (firstHitUrl batch),
                    headerActions = Some (''view, Open, '' @ firstHitUrl batch),
                    requestBody = snd (formatBatchNotification batch)\<rparr>
     in matches (scanKeywords env p t ks initialScan) = batch
      \<and> seenIds (scanKeywords env p t ks initialScan) = (\<lambda>c. objectID (snd c)) ` set found
      \<and> (\<forall>k \<in> set ks. \<forall>hits. searchHN p (keyword k) t = Inr hits \<longrightarrow>
            (\<forall>h \<in> set hits.
               objectID h \<in> seenIds (scanKeywords env p t ks initialScan)
               \<and> (objectID h \<in> (\<lambda>m. objectID (hit m)) ` set batch
                    \<or> (\<exists>c \<in> set (firstSightings {} found).
                          objectID (snd c) = objectID h \<and> scoredBelow env c))))
      \<and> handleScheduled env p =
           (if batch \<noteq> [] \<and> \<not> fetchNtfy p request then (Inl NotifyRejected, HN_KV env, [])
            else (Inr (Done (card ((\<lambda>c. objectID (snd c)) ` set found)) (length batch)
                        (length (filter (scoredBelow env) (firstSightings {} found)))),
                  setLastCheckTimestamp (HN_KV env) (dateNow p div 1000),
                  if batch = [] then [] else [request]))
      \<and> LAST_CHECK_KEY (setLastCheckTimestamp (HN_KV env) (dateNow p div 1000))
           = Some (toString (dateNow p div 1000))"
proof -
  define ks where "ks = getKeywords (HN_KV env)"
  define t where "t = getLastCheckTimestamp (HN_KV env) (dateNowDefault p)"
  define found where "found = concat (map (\<lambda>k. case searchHN p (keyword k) t of
                                     Inr hits \<Rightarrow> map (Pair k) hits
                                   | Inl e \<Rightarrow> []) ks)"
  define batch where
    "batch = map toMatch (filter (\<lambda>c. \<not> scoredBelow env c) (firstSightings {} found))"
  define request where "request = \<lparr>requestUrl = ''https://ntfy.sh/'' @ NTFY_TOPIC env,
                    headerTitle = fst (formatBatchNotification batch),
                    headerClick = Some (firstHitUrl batch),
                    headerActions = Some (''view, Open, '' @ firstHitUrl batch),
                    requestBody = snd (formatBatchNotification batch)\<rparr>"
  let ?S = "scanKeywords env p t ks initialScan"
  have found: "found = candidates p t ks" unfolding found_def candidates_concat ..
  have m: "matches ?S = batch" unfolding batch_def found by (rule matches_scanKeywords)
  have i: "seenIds ?S = (\<lambda>c. objectID (snd c)) ` set found"
    unfolding found by (rule seenIds_scanKeywords)
  have each: "\<forall>k \<in> set ks. \<forall>hits. searchHN p (keyword k) t = Inr hits \<longrightarrow>
            (\<forall>h \<in> set hits.
               objectID h \<in> seenIds ?S
               \<and> (objectID h \<in> (\<lambda>m. objectID (hit m)) ` set batch
                    \<or> (\<exists>c \<in> set (firstSightings {} found).
                          objectID (snd c) = objectID h \<and> scoredBelow env c)))"
  proof (intro ballI allI impI)
    fix k hits h
    assume k: "k \<in> set ks" and hits: "searchHN p (keyword k) t = Inr hits" and h: "h \<in> set hits"
    have "(k, h) \<in> set found"
      unfolding found_def using k hits h by (auto intro!: bexI[of _ k])
    then have seen: "objectID h \<in> (\<lambda>c. objectID (snd c)) ` set found" by force
    then have "objectID h \<in> (\<lambda>c. objectID (snd c)) ` set (firstSightings {} found)"
      unfolding firstSightings_ids by simp
    then obtain c where c: "c \<in> set (firstSightings {} found)" "objectID (snd c) = objectID h"
      by force
    have "objectID h \<in> (\<lambda>m. objectID (hit m)) ` set batch
            \<or> (\<exists>c \<in> set (firstSightings {} found). objectID (snd c) = objectID h \<and> scoredBelow env c)"
    proof (cases "scoredBelow env c")
      case True
      with c show ?thesis by blast
    next
      case False
      with c(1) have "toMatch c \<in> set batch" unfolding batch_def by simp
      moreover have "objectID (hit (toMatch c)) = objectID h" using c(2) by (simp add: toMatch_def)
      ultimately have "objectID h \<in> (\<lambda>m. objectID (hit m)) ` set batch" by force
      then show ?thesis ..
    qed
    with seen show "objectID h \<in> seenIds ?S
               \<and> (objectID h \<in> (\<lambda>m. objectID (hit m)) ` set batch
                    \<or> (\<exists>c \<in> set (firstSightings {} found).
                          objectID (snd c) = objectID h \<and> scoredBelow env c))"
      unfolding i by simp
  qed
  have run: "handleScheduled env p =
           (if batch \<noteq> [] \<and> \<not> fetchNtfy p request then (Inl NotifyRejected, HN_KV env, [])
            else (Inr (Done (card ((\<lambda>c. objectID (snd c)) ` set found)) (length batch)
                        (length (filter (scoredBelow env) (firstSightings {} found)))),
                  setLastCheckTimestamp (HN_KV env) (dateNow p div 1000),
                  if batch = [] then [] else [request]))"
    by (rule handleScheduled_outcome[OF assms found[unfolded t_def ks_def] batch_def request_def])
  have w: "LAST_CHECK_KEY (setLastCheckTimestamp (HN_KV env) (dateNow p div 1000))
           = Some (toString (dateNow p div 1000))"
    by (simp add: setLastCheckTimestamp_def)
  have "matches ?S = batch \<and> seenIds ?S = (\<lambda>c. objectID (snd c)) ` set found
      \<and> (\<forall>k \<in> set ks. \<forall>hits. searchHN p (keyword k) t = Inr hits \<longrightarrow>
            (\<forall>h \<in> set hits.
               objectID h \<in> seenIds ?S
               \<and> (objectID h \<in> (\<lambda>m. objectID (hit m)) ` set batch
                    \<or> (\<exists>c \<in> set (firstSightings {} found).
                          objectID (snd c) = objectID h \<and> scoredBelow env c))))
      \<and> handleScheduled env p =
           (if batch \<noteq> [] \<and> \<not> fetchNtfy p request then (Inl NotifyRejected, HN_KV env, [])
            else (Inr (Done (card ((\<lambda>c. objectID (snd c)) ` set found)) (length batch)
                        (length (filter (scoredBelow env) (firstSightings {} found)))),
                  setLastCheckTimestamp (HN_KV env) (dateNow p div 1000),
                  if batch = [] then [] else [request]))
      \<and> LAST_CHECK_KEY (setLastCheckTimestamp (HN_KV env) (dateNow p div 1000))
           = Some (toString (dateNow p div 1000))"
    using m i each run w by (intro conjI)
  then show ?thesis
    unfolding Let_def request_def batch_def found_def t_def ks_def .
qed

theorem search_failure_is_isolated_witness:
  "getKeywords (HN_KV sampleEnv) \<noteq> [] \<and> NTFY_TOPIC sampleEnv \<noteq> []
   \<and> validTimeValue (getLastCheckTimestamp (HN_KV sampleEnv) 1700000900100)
   \<and> searchHN samplePlatformRustFails ''rust'' (Num 1700000000) = Inl (HNApiError 503)
   \<and> searchHN samplePlatformRustFails ''zig'' (Num 1700000000) = Inr [sampleComment]
   \<and> matches (scanKeywords sampleEnv samplePlatformRustFails (Num 1700000000) sampleKeywords
                 initialScan)
       = [\<lparr>mkeyword = ''zig'', hit = sampleComment\<rparr>]
   \<and> seenIds (scanKeywords sampleEnv samplePlatformRustFails (Num 1700000000) sampleKeywords
                 initialScan)
       = {''102''}
   \<and> handleScheduled sampleEnv samplePlatformRustFails
       = (Inr (Done 1 1 0),
          \<lparr>KEYWORDS_KEY = Some (ConfigArray sampleKeywords), LAST_CHECK_KEY = Some ''1700000900''\<rparr>,
          [\<lparr>requestUrl = ''https://ntfy.sh/alerts'',
            headerTitle = ''[zig] Zig vs Rust'',
            headerClick = Some ''https://news.ycombinator.com/item?id=102'',
            headerActions = Some ''view, Open, https://news.ycombinator.com/item?id=102'',
            requestBody = ''I like  Zig  more...''\<rparr>])"
proof -
  let ?p = samplePlatformRustFails
  have ks: "getKeywords sampleKV = sampleKeywords" by (simp add: getKeywords_def)
  have h1: "getKeywords (HN_KV sampleEnv) \<noteq> []" by (simp add: ks)
  have h2: "NTFY_TOPIC sampleEnv \<noteq> []" by simp
  have h3: "validTimeValue (getLastCheckTimestamp (HN_KV sampleEnv) (dateNowDefault ?p))"
    by (simp add: sample_last_check validTimeValue_def)
  have s: "searchHN ?p ''rust'' (Num 1700000000) = Inl (HNApiError 503)"
    "searchHN ?p ''zig'' (Num 1700000000) = Inr [sampleComment]"
    by (simp_all add: searchHN_def)
  have strip: "stripTags ''I like <i>Zig</i> more'' = ''I like  Zig  more''" by simp
  have ts: "toString 1700000900 = ''1700000900''"
    by (simp add: toString_def natToString.simps digitChar_def)
  have below: "\<not> scoredBelow sampleEnv (\<lparr>keyword = ''zig'', kcontext = None\<rparr>, sampleComment)"
    by (simp add: scoredBelow_def)
  note inst = search_failure_is_isolated [OF h1 h2 h3, unfolded Let_def]
  from inst have "matches (scanKeywords sampleEnv ?p
                     (getLastCheckTimestamp (HN_KV sampleEnv) (dateNowDefault ?p))
                     (getKeywords (HN_KV sampleEnv)) initialScan)
        = [\<lparr>mkeyword = ''zig'', hit = sampleComment\<rparr>]"
    by (simp add: ks sample_last_check s below toMatch_def)
  then have m: "matches (scanKeywords sampleEnv ?p (Num 1700000000) sampleKeywords initialScan)
        = [\<lparr>mkeyword = ''zig'', hit = sampleComment\<rparr>]"
    by (simp only: Env.simps Platform.simps sample_last_check ks)
  from inst have "seenIds (scanKeywords sampleEnv ?p
                     (getLastCheckTimestamp (HN_KV sampleEnv) (dateNowDefault ?p))
                     (getKeywords (HN_KV sampleEnv)) initialScan)
        = {''102''}"
    by (simp add: ks sample_last_check s)
  then have i: "seenIds (scanKeywords sampleEnv ?p (Num 1700000000) sampleKeywords initialScan)
        = {''102''}"
    by (simp only: Env.simps Platform.simps sample_last_check ks)
  from inst have run: "handleScheduled sampleEnv ?p
       = (Inr (Done 1 1 0),
          \<lparr>KEYWORDS_KEY = Some (ConfigArray sampleKeywords), LAST_CHECK_KEY = Some ''1700000900''\<rparr>,
          [\<lparr>requestUrl = ''https://ntfy.sh/alerts'',
            headerTitle = ''[zig] Zig vs Rust'',
            headerClick = Some ''https://news.ycombinator.com/item?id=102'',
            headerActions = Some ''view, Open, https://news.ycombinator.com/item?id=102'',
            requestBody = ''I like  Zig  more...''\<rparr>])"
    by (simp add: ks sample_last_check s below toMatch_def formatBatchNotification_one
          firstHitUrl_def orElse_def strip setLastCheckTimestamp_def ts)
  have h3': "validTimeValue (getLastCheckTimestamp (HN_KV sampleEnv) 1700000900100)"
    using h3 by simp
  show ?thesis using h1 h2 h3' s m i run by (intro conjI)
qed

text \<open>
  C6 as it is stated fails. The search for \<^verbatim>\<open>rust\<close> throws, the search for \<^verbatim>\<open>zig\<close> succeeds and
  gives one match, and the post to ntfy.sh is rejected: the cycle throws that rejection
  before its last line, and the stored time of the last check stays 1700000000 instead of
  the time of the cycle, 1700000900.
\<close>

theorem search_failure_is_isolated_counterexample:
  "searchHN samplePlatformPostRejected ''rust'' (Num 1700000000) = Inl (HNApiError 503)
   \<and> searchHN samplePlatformPostRejected ''zig'' (Num 1700000000) = Inr [sampleComment]
   \<and> getLastCheckTimestamp (HN_KV sampleEnv) (dateNowDefault samplePlatformPostRejected)
       = Num 1700000000
   \<and> matches (scanKeywords sampleEnv samplePlatformPostRejected (Num 1700000000) sampleKeywords
                 initialScan)
       = [\<lparr>mkeyword = ''zig'', hit = sampleComment\<rparr>]
   \<and> handleScheduled sampleEnv samplePlatformPostRejected
       = (Inl NotifyRejected,
          \<lparr>KEYWORDS_KEY = Some (ConfigArray sampleKeywords), LAST_CHECK_KEY = Some ''1700000000''\<rparr>,
          [])
   \<and> toString (dateNow samplePlatformPostRejected div 1000) = ''1700000900''"
proof -
  let ?p = samplePlatformPostRejected
  have ks: "getKeywords sampleKV = sampleKeywords" by (simp add: getKeywords_def)
  have h1: "getKeywords (HN_KV sampleEnv) \<noteq> []" by (simp add: ks)
  have h2: "NTFY_TOPIC sampleEnv \<noteq> []" by simp
  have lc: "getLastCheckTimestamp (HN_KV sampleEnv) (dateNowDefault ?p) = Num 1700000000"
    using sample_last_check by simp
  have h3: "validTimeValue (getLastCheckTimestamp (HN_KV sampleEnv) (dateNowDefault ?p))"
    unfolding lc by (simp add: validTimeValue_def)
  have s: "searchHN ?p ''rust'' (Num 1700000000) = Inl (HNApiError 503)"
    "searchHN ?p ''zig'' (Num 1700000000) = Inr [sampleComment]"
    by (simp_all add: searchHN_def)
  have scan: "scanKeywords sampleEnv ?p (Num 1700000000) sampleKeywords initialScan
       = \<lparr>seenIds = {''102''}, matches = [\<lparr>mkeyword = ''zig'', hit = sampleComment\<rparr>],
          filteredCount = 0\<rparr>"
    by (simp add: s initialScan_def processHit_def truthy_def Let_def)
  have m: "matches (scanKeywords sampleEnv ?p (Num 1700000000) sampleKeywords initialScan)
       = [\<lparr>mkeyword = ''zig'', hit = sampleComment\<rparr>]"
    unfolding scan by simp
  have s4: "\<lparr>seenIds = {''102''}, matches = [\<lparr>mkeyword = ''zig'', hit = sampleComment\<rparr>],
              filteredCount = 0\<rparr>
            = scanKeywords sampleEnv ?p (getLastCheckTimestamp (HN_KV sampleEnv) (dateNowDefault ?p))
                (getKeywords (HN_KV sampleEnv)) initialScan"
    unfolding lc by (simp only: Env.simps ks scan)
  have run: "handleScheduled sampleEnv ?p
       = (Inl NotifyRejected,
          \<lparr>KEYWORDS_KEY = Some (ConfigArray sampleKeywords), LAST_CHECK_KEY = Some ''1700000000''\<rparr>,
          [])"
    by (subst handleScheduled_unfold[OF h1 h2 h3 s4])
       (simp add: sendNotification_def Let_def)
  have now: "toString (dateNow ?p div 1000) = ''1700000900''"
    using sample_now by simp
  show ?thesis using s lc m run now by (intro conjI)
qed

end
